theory Spec2Isabelle
  imports Main "HOL-Library.Multiset" "HOL-Library.Sublist"
    "HOL-Library.Char_ord" "HOL-Library.List_Lexorder"
begin

section \<open>Go values used by the converter\<close>

text \<open>
  Go strings and byte slices are byte sequences, so both are \<open>string\<close> here.
  An \<open>error\<close> value is one of the two sentinels the code compares by identity
  (\<open>errNoImagesFound\<close> of the loader, \<open>io.EOF\<close> of the rar reader) or any other
  error, kept by its message.
\<close>

type_synonym bytes = string

datatype error = errNoImagesFound | io_EOF | Err string

fun Error :: "error \<Rightarrow> string" where
  "Error errNoImagesFound = ''no images found''"
| "Error io_EOF = ''EOF''"
| "Error (Err s) = s"

definition newline :: char where
  "newline = CHR 0x0A"

subsection \<open>\<open>path/filepath\<close> and \<open>strings\<close> on a Unix host\<close>

definition IsPathSeparator :: "char \<Rightarrow> bool" where
  "IsPathSeparator c = (c = CHR ''/'')"

text \<open>
  \<open>filepath.Ext\<close> walks from the last byte towards the first, stops at a path
  separator, and returns the suffix that starts at the first dot it meets.
  \<open>ext_scan\<close> is that loop on the reversed path, \<open>acc\<close> being the bytes already passed.
\<close>

fun ext_scan :: "string \<Rightarrow> string \<Rightarrow> string" where
  "ext_scan [] acc = []"
| "ext_scan (c # cs) acc =
     (if IsPathSeparator c then []
      else if c = CHR ''.'' then c # acc
      else ext_scan cs (c # acc))"

definition Ext :: "string \<Rightarrow> string" where
  "Ext path = ext_scan (rev path) []"

text \<open>
  \<open>filepath.Split\<close> cuts after the last separator: the directory keeps its slash.
\<close>

definition Split :: "string \<Rightarrow> string \<times> string" where
  "Split path =
     (let file = rev (takeWhile (\<lambda>c. \<not> IsPathSeparator c) (rev path))
      in (take (length path - length file) path, file))"

text \<open>
  \<open>filepath.Base\<close>: the empty path is \<open>.\<close>; trailing separators are dropped, then
  everything up to the last separator; a path of separators only is \<open>/\<close>.
\<close>

definition Base :: "string \<Rightarrow> string" where
  "Base path =
     (if path = [] then ''.''
      else
        let p = rev (dropWhile IsPathSeparator (rev path));
            p' = rev (takeWhile (\<lambda>c. \<not> IsPathSeparator c) (rev p))
        in if p' = [] then ''/'' else p')"

text \<open>
  \<open>strings.ToLower\<close>, as far as a comparison of its result with an ASCII string can
  tell. \<open>A\<close>..\<open>Z\<close> become \<open>a\<close>..\<open>z\<close>. Of the letters outside ASCII only two have
  an ASCII lower case: U+0130, in UTF-8 the bytes \<open>C4 B0\<close>, becomes \<open>i\<close>, and
  U+212A, the bytes \<open>E2 84 AA\<close>, becomes \<open>k\<close>. Every other byte outside ASCII is
  kept here; Go replaces it by a rune that is again outside ASCII, so in both cases the
  result differs from every ASCII string.
\<close>

definition lower_byte :: "char \<Rightarrow> char" where
  "lower_byte c =
     (case map_of (zip ''ABCDEFGHIJKLMNOPQRSTUVWXYZ'' ''abcdefghijklmnopqrstuvwxyz'') c of
        Some l \<Rightarrow> l
      | None \<Rightarrow> c)"

fun ToLower :: "string \<Rightarrow> string" where
  "ToLower [] = []"
| "ToLower (c # cs) =
     (if c = CHR 0xC4 \<and> take 1 cs = [CHR 0xB0] then CHR ''i'' # ToLower (drop 1 cs)
      else if c = CHR 0xE2 \<and> take 2 cs = [CHR 0x84, CHR 0xAA] then CHR ''k'' # ToLower (drop 2 cs)
      else lower_byte c # ToLower cs)"

subsection \<open>\<open>fmt\<close> verbs for non-negative integers\<close>

text \<open>
  \<open>fmt.Sprintf("%d", n)\<close> for \<open>n \<ge> 0\<close> is the decimal numeral of \<open>n\<close>;
  \<open>fmt.Sprintf("%0wd", n)\<close> pads it on the left with zeros up to width \<open>w\<close> and never
  truncates.
\<close>

fun Sprintf_d :: "nat \<Rightarrow> string" where
  "Sprintf_d n =
     (if n < 10 then [''0123456789'' ! n]
      else Sprintf_d (n div 10) @ [''0123456789'' ! (n mod 10)])"

declare Sprintf_d.simps [simp del]

definition Sprintf_0d :: "nat \<Rightarrow> nat \<Rightarrow> string" where
  "Sprintf_0d w n = replicate (w - length (Sprintf_d n)) (CHR ''0'') @ Sprintf_d n"

section \<open>The image loader (\<open>epub_image_processor_loader.go\<close>)\<close>

text \<open>
  A task carries its page index, the decoded image (\<open>None\<close> is Go's \<open>nil\<close>),
  the directory part and the file name. The indices and counts of the loader are Go
  \<open>int\<close>s that hold positions and lengths of slices; they are natural numbers here.
\<close>

record 'img tasks =
  Id_t :: nat
  Image_t :: "'img option"
  Path_t :: string
  Name_t :: string

text \<open>
  A goroutine ends the whole process when it calls \<open>os.Exit\<close> with a status, after
  writing a message to standard error, or when it hits a run-time panic. The output
  channel is either closed after all goroutines that feed it finished, or never closed
  because one of them ended the process.
\<close>

datatype fatal = Exited nat string | Panicked

datatype status = Closed | Fatal fatal

type_synonym 'img out_chan = "'img tasks list \<times> status"

text \<open>
  The files, archives and decoders the loader talks to. Each field is the result of
  the call of that name:
  \<^item> \<open>os_Stat p\<close>: \<open>os.Stat(p)\<close>, an error or \<open>fi.IsDir()\<close>;
  \<^item> \<open>filepath_WalkDir root\<close>: the calls \<open>filepath.WalkDir\<close> makes to its callback,
    each with a path, \<open>d.IsDir()\<close> and the error passed in;
  \<^item> \<open>os_Open p\<close>: the bytes \<open>os.Open(p)\<close> gives access to;
  \<^item> \<open>image_Decode b\<close>: \<open>image.Decode\<close> on a reader over \<open>b\<close>;
  \<^item> \<open>zip_OpenReader p\<close>: the members \<open>r.File\<close> of the archive;
  \<^item> \<open>rardecode_List p\<close>: the members listed from the headers;
  \<^item> \<open>rardecode_OpenReader p\<close>: the sequential reader, as the members \<open>r.Next()\<close>
    returns (each with the result of \<open>io.Copy\<close> from the reader) followed by the call of
    \<open>r.Next()\<close> that fails, with the name of the header it returned (\<open>None\<close> when the
    header is \<open>nil\<close>) and its error;
  \<^item> \<open>pdfread_Load p\<close>: the document, \<open>None\<close> for \<open>nil\<close>;
  \<^item> \<open>filepath_Clean\<close>, \<open>filepath_Join\<close>: the functions of \<open>path/filepath\<close>;
  \<^item> \<open>sortpath_By names mode\<close>: the slice after
    \<open>sort.Sort(sortpath.By(names, mode))\<close>; package \<open>sortpath\<close> is not among the
    sources, so the order is a parameter.
\<close>

type_synonym visit = "string \<times> bool \<times> error option"

record zip_File =
  Name_z :: string
  IsDir_z :: bool
  Open_z :: "error + bytes"

record rar_File =
  Name_r :: string
  IsDir_r :: bool
  Solid_r :: bool
  Open_r :: "error + bytes"

type_synonym rar_stream = "(string \<times> (error + bytes)) list \<times> (string option \<times> error)"

record 'img pdf =
  Pages :: nat
  Extract :: "nat \<Rightarrow> error + 'img"

record 'img system =
  os_Stat :: "string \<Rightarrow> error + bool"
  filepath_WalkDir :: "string \<Rightarrow> visit list"
  os_Open :: "string \<Rightarrow> error + bytes"
  image_Decode :: "bytes \<Rightarrow> error + 'img"
  zip_OpenReader :: "string \<Rightarrow> error + zip_File list"
  rardecode_List :: "string \<Rightarrow> error + rar_File list"
  rardecode_OpenReader :: "string \<Rightarrow> error + rar_stream"
  pdfread_Load :: "string \<Rightarrow> 'img pdf option"
  filepath_Clean :: "string \<Rightarrow> string"
  filepath_Join :: "string \<Rightarrow> string \<Rightarrow> string"
  sortpath_By :: "string list \<Rightarrow> int \<Rightarrow> string list"

text \<open>
  The fields of \<open>EPUBImageProcessor\<close> the loader reads. \<open>WorkersRatio\<close> is a method
  defined outside the sources at hand; its value is a parameter.
\<close>

record EPUBImageProcessor =
  Input :: string
  Dry :: bool
  SortPathMode :: int
  WorkersRatio :: "int \<Rightarrow> int"

subsection \<open>\<open>isSupportedImage\<close>\<close>

definition isSupportedImage :: "string \<Rightarrow> bool" where
  "isSupportedImage path =
     (let e = ToLower (Ext path) in
      if e = ''.jpg'' \<or> e = ''.jpeg'' \<or> e = ''.png'' \<or> e = ''.webp'' then True else False)"

subsection \<open>The worker pool\<close>

text \<open>
  Every loader starts \<open>WorkersRatio(50)\<close> workers that take jobs from an unbuffered
  channel, turn each into a task and send it to the output. The order in which
  the workers finish is not fixed by the code; \<open>run_jobs\<close> is the run in which the
  jobs are completed in the order of the list it is given, and the first worker
  that exits or panics ends the process. The statements below that speak of the set
  of emitted tasks do not depend on that order. With no worker nothing is taken from
  the queue and the output is closed at once. The capacity of the output channel and
  the closing of files and archives do not change what is emitted and are left out.
\<close>

fun run_jobs :: "('job \<Rightarrow> fatal + 'img tasks) \<Rightarrow> 'job list \<Rightarrow> 'img out_chan" where
  "run_jobs w [] = ([], Closed)"
| "run_jobs w (j # js) =
     (case w j of
        Inl f \<Rightarrow> ([], Fatal f)
      | Inr t \<Rightarrow> (let (ts, st) = run_jobs w js in (t # ts, st)))"

definition pool :: "int \<Rightarrow> ('job \<Rightarrow> fatal + 'img tasks) \<Rightarrow> 'job list \<times> status \<Rightarrow> 'img out_chan" where
  "pool n w produced =
     (if n \<le> 0 then ([], Closed)
      else
        let (ts, st) = run_jobs w (fst produced)
        in (ts, if st = Closed then snd produced else st))"

definition error_processing_image :: "string \<Rightarrow> error \<Rightarrow> string" where
  "error_processing_image name err =
     [newline] @ ''error processing image '' @ name @ '': '' @ Error err @ [newline]"

text \<open>
  The part the three workers share: unless the run is dry, open the entry and decode
  it; either failure writes the message and exits with status 1.
\<close>

definition open_decode ::
  "'img system \<Rightarrow> EPUBImageProcessor \<Rightarrow> string \<Rightarrow> (error + bytes) \<Rightarrow> fatal + 'img option" where
  "open_decode sys e name opened =
     (if \<not> Dry e then
        (case opened of
           Inl err \<Rightarrow> Inl (Exited 1 (error_processing_image name err))
         | Inr f \<Rightarrow>
             (case image_Decode sys f of
                Inl err \<Rightarrow> Inl (Exited 1 (error_processing_image name err))
              | Inr img \<Rightarrow> Inr (Some img)))
      else Inr None)"

subsection \<open>\<open>loadDir\<close>\<close>

text \<open>
  \<open>walk_fn\<close> is the callback given to \<open>filepath.WalkDir\<close>, with the slice
  \<open>images\<close> it appends to; \<open>WalkDir\<close> runs it over the visits and stops at the first
  error it returns.
\<close>

fun walk_fn :: "string list \<Rightarrow> visit \<Rightarrow> error + string list" where
  "walk_fn images (path, d_IsDir, Some err) = Inl err"
| "walk_fn images (path, d_IsDir, None) =
     Inr (if \<not> d_IsDir \<and> isSupportedImage path then images @ [path] else images)"

fun WalkDir :: "visit list \<Rightarrow> string list \<Rightarrow> error + string list" where
  "WalkDir [] images = Inr images"
| "WalkDir (v # vs) images =
     (case walk_fn images v of
        Inl err \<Rightarrow> Inl err
      | Inr images' \<Rightarrow> WalkDir vs images')"

type_synonym dir_job = "nat \<times> string"

definition dir_jobs :: "string list \<Rightarrow> dir_job list" where
  "dir_jobs images = zip [0..<length images] images"

text \<open>
  The slice \<open>p[len(input)+1:]\<close> panics when \<open>p\<close> is shorter than \<open>len(input)+1\<close>.
\<close>

definition dir_worker ::
  "'img system \<Rightarrow> EPUBImageProcessor \<Rightarrow> string \<Rightarrow> dir_job \<Rightarrow> fatal + 'img tasks" where
  "dir_worker sys e input job =
     (case open_decode sys e (snd job) (os_Open sys (snd job)) of
        Inl f \<Rightarrow> Inl f
      | Inr img \<Rightarrow>
          (let (p, fn) = Split (snd job) in
           if p = input then
             Inr \<lparr>Id_t = fst job, Image_t = img, Path_t = [], Name_t = fn\<rparr>
           else if length input + 1 \<le> length p then
             Inr \<lparr>Id_t = fst job, Image_t = img,
                  Path_t = drop (length input + 1) p, Name_t = fn\<rparr>
           else Inl Panicked))"

definition loadDir :: "'img system \<Rightarrow> EPUBImageProcessor \<Rightarrow> error + nat \<times> 'img out_chan" where
  "loadDir sys e =
     (let input = filepath_Clean sys (Input e) in
      case WalkDir (filepath_WalkDir sys input) [] of
        Inl err \<Rightarrow> Inl err
      | Inr images \<Rightarrow>
          (let totalImages = length images in
           if totalImages = 0 then Inl errNoImagesFound
           else
             let images = sortpath_By sys images (SortPathMode e)
             in Inr (totalImages,
                     pool (WorkersRatio e 50) (dir_worker sys e input) (dir_jobs images, Closed))))"

subsection \<open>\<open>loadCbz\<close>\<close>

text \<open>
  \<open>indexedNames\<close> is filled in the order of the sorted names, a later entry for the
  same name replacing the earlier one. Reading a missing key of a Go map gives 0.
\<close>

fun index_names :: "string list \<Rightarrow> nat \<Rightarrow> (string \<rightharpoonup> nat) \<Rightarrow> (string \<rightharpoonup> nat)" where
  "index_names [] i m = m"
| "index_names (name # names) i m = index_names names (Suc i) (m(name \<mapsto> i))"

definition indexedNames :: "string list \<Rightarrow> (string \<rightharpoonup> nat)" where
  "indexedNames names = index_names names 0 Map.empty"

definition map_index :: "(string \<rightharpoonup> nat) \<Rightarrow> string \<Rightarrow> nat" where
  "map_index m k = (case m k of None \<Rightarrow> 0 | Some i \<Rightarrow> i)"

definition cbz_images :: "zip_File list \<Rightarrow> zip_File list" where
  "cbz_images files = filter (\<lambda>f. \<not> IsDir_z f \<and> isSupportedImage (Name_z f)) files"

type_synonym cbz_job = "nat \<times> zip_File"

definition cbz_jobs :: "(string \<rightharpoonup> nat) \<Rightarrow> zip_File list \<Rightarrow> cbz_job list" where
  "cbz_jobs idx images = map (\<lambda>img. (map_index idx (Name_z img), img)) images"

definition cbz_worker ::
  "'img system \<Rightarrow> EPUBImageProcessor \<Rightarrow> cbz_job \<Rightarrow> fatal + 'img tasks" where
  "cbz_worker sys e job =
     (case open_decode sys e (Name_z (snd job)) (Open_z (snd job)) of
        Inl f \<Rightarrow> Inl f
      | Inr img \<Rightarrow>
          (let (p, fn) = Split (filepath_Clean sys (Name_z (snd job)))
           in Inr \<lparr>Id_t = fst job, Image_t = img, Path_t = p, Name_t = fn\<rparr>))"

definition loadCbz :: "'img system \<Rightarrow> EPUBImageProcessor \<Rightarrow> error + nat \<times> 'img out_chan" where
  "loadCbz sys e =
     (case zip_OpenReader sys (Input e) of
        Inl err \<Rightarrow> Inl err
      | Inr files \<Rightarrow>
          (let images = cbz_images files;
               totalImages = length images
           in if totalImages = 0 then Inl errNoImagesFound
              else
                let names = sortpath_By sys (map Name_z images) (SortPathMode e);
                    idx = indexedNames names
                in Inr (totalImages,
                        pool (WorkersRatio e 50) (cbz_worker sys e) (cbz_jobs idx images, Closed))))"

subsection \<open>\<open>loadCbr\<close>\<close>

definition cbr_wanted :: "rar_File \<Rightarrow> bool" where
  "cbr_wanted f = (\<not> IsDir_r f \<and> isSupportedImage (Name_r f))"

definition cbr_names :: "rar_File list \<Rightarrow> string list" where
  "cbr_names files = map Name_r (filter cbr_wanted files)"

definition cbr_isSolid :: "rar_File list \<Rightarrow> bool" where
  "cbr_isSolid files = list_ex Solid_r (filter cbr_wanted files)"

text \<open>A job of \<open>loadCbr\<close>: the index, the name and what \<open>Open()\<close> will give.\<close>

type_synonym cbr_job = "nat \<times> string \<times> (error + bytes)"

text \<open>
  The loop over a solid archive. A member whose name is wanted is copied into a
  buffer and queued with a reader over the buffer, which cannot fail to open; a failed
  copy exits. The end of the stream stops the loop; any other error of \<open>r.Next()\<close>
  is reported with \<open>f.Name\<close>, which panics when the header \<open>f\<close> is \<open>nil\<close>.
\<close>

fun solid_jobs ::
  "(string \<rightharpoonup> nat) \<Rightarrow> (string \<times> (error + bytes)) list \<Rightarrow> string option \<times> error
     \<Rightarrow> cbr_job list \<times> status" where
  "solid_jobs idx [] (f, rerr) =
     (if rerr = io_EOF then ([], Closed)
      else case f of
             None \<Rightarrow> ([], Fatal Panicked)
           | Some name \<Rightarrow> ([], Fatal (Exited 1 (error_processing_image name rerr))))"
| "solid_jobs idx ((name, copied) # rest) final =
     (case idx name of
        None \<Rightarrow> solid_jobs idx rest final
      | Some i \<Rightarrow>
          (case copied of
             Inl rerr \<Rightarrow> ([], Fatal (Exited 1 (error_processing_image name rerr)))
           | Inr b \<Rightarrow>
               (let (js, st) = solid_jobs idx rest final
                in ((i, name, Inr b) # js, st))))"

fun file_jobs :: "(string \<rightharpoonup> nat) \<Rightarrow> rar_File list \<Rightarrow> cbr_job list" where
  "file_jobs idx [] = []"
| "file_jobs idx (img # files) =
     (case idx (Name_r img) of
        None \<Rightarrow> file_jobs idx files
      | Some i \<Rightarrow> (i, Name_r img, Open_r img) # file_jobs idx files)"

definition cbr_producer ::
  "'img system \<Rightarrow> EPUBImageProcessor \<Rightarrow> bool \<Rightarrow> rar_File list \<Rightarrow> (string \<rightharpoonup> nat)
     \<Rightarrow> cbr_job list \<times> status" where
  "cbr_producer sys e isSolid files idx =
     (if isSolid \<and> \<not> Dry e then
        (case rardecode_OpenReader sys (Input e) of
           Inl rerr \<Rightarrow> ([], Fatal (Exited 1 (error_processing_image (Input e) rerr)))
         | Inr r \<Rightarrow> solid_jobs idx (fst r) (snd r))
      else (file_jobs idx files, Closed))"

definition cbr_worker ::
  "'img system \<Rightarrow> EPUBImageProcessor \<Rightarrow> cbr_job \<Rightarrow> fatal + 'img tasks" where
  "cbr_worker sys e job =
     (case open_decode sys e (fst (snd job)) (snd (snd job)) of
        Inl f \<Rightarrow> Inl f
      | Inr img \<Rightarrow>
          (let (p, fn) = Split (filepath_Clean sys (fst (snd job)))
           in Inr \<lparr>Id_t = fst job, Image_t = img, Path_t = p, Name_t = fn\<rparr>))"

definition loadCbr :: "'img system \<Rightarrow> EPUBImageProcessor \<Rightarrow> error + nat \<times> 'img out_chan" where
  "loadCbr sys e =
     (case rardecode_List sys (Input e) of
        Inl err \<Rightarrow> Inl err
      | Inr files \<Rightarrow>
          (let isSolid = cbr_isSolid files;
               names = cbr_names files;
               totalImages = length names
           in if totalImages = 0 then Inl errNoImagesFound
              else
                let names = sortpath_By sys names (SortPathMode e);
                    idx = indexedNames names
                in Inr (totalImages,
                        pool (WorkersRatio e 50) (cbr_worker sys e)
                          (cbr_producer sys e isSolid files idx))))"

subsection \<open>\<open>loadPdf\<close>\<close>

text \<open>
  One goroutine walks the pages \<open>0, 1, ...\<close> in order and sends each task itself.
  \<open>pageFmt\<close> is \<open>page %0wd\<close> with \<open>w\<close> the length of the decimal numeral of
  \<open>totalImages\<close>; it is kept as that width. A failed extraction prints the error
  alone, followed by a newline.
\<close>

definition Sprintf_pageFmt :: "nat \<Rightarrow> nat \<Rightarrow> string" where
  "Sprintf_pageFmt w n = ''page '' @ Sprintf_0d w n"

fun pdf_pages :: "EPUBImageProcessor \<Rightarrow> 'img pdf \<Rightarrow> nat \<Rightarrow> nat list \<Rightarrow> 'img out_chan" where
  "pdf_pages e pdf pageFmt [] = ([], Closed)"
| "pdf_pages e pdf pageFmt (i # rest) =
     (case (if \<not> Dry e then
              (case Extract pdf (i + 1) of
                 Inl err \<Rightarrow> Inl (Exited 1 (Error err @ [newline]))
               | Inr img \<Rightarrow> Inr (Some img))
            else Inr None) of
        Inl f \<Rightarrow> ([], Fatal f)
      | Inr img \<Rightarrow>
          (let (ts, st) = pdf_pages e pdf pageFmt rest
           in (\<lparr>Id_t = i, Image_t = img, Path_t = [],
                 Name_t = Sprintf_pageFmt pageFmt (i + 1)\<rparr> # ts, st)))"

definition loadPdf :: "'img system \<Rightarrow> EPUBImageProcessor \<Rightarrow> error + nat \<times> 'img out_chan" where
  "loadPdf sys e =
     (case pdfread_Load sys (Input e) of
        None \<Rightarrow> Inl (Err ''can't read pdf'')
      | Some pdf \<Rightarrow>
          (let totalImages = Pages pdf;
               pageFmt = length (Sprintf_d totalImages)
           in Inr (totalImages, pdf_pages e pdf pageFmt [0..<totalImages])))"

subsection \<open>\<open>load\<close>\<close>

definition load :: "'img system \<Rightarrow> EPUBImageProcessor \<Rightarrow> error + nat \<times> 'img out_chan" where
  "load sys e =
     (case os_Stat sys (Input e) of
        Inl err \<Rightarrow> Inl err
      | Inr fi_IsDir \<Rightarrow>
          if fi_IsDir then loadDir sys e
          else
            let ext = ToLower (Ext (Input e)) in
            if ext = ''.cbz'' \<or> ext = ''.zip'' then loadCbz sys e
            else if ext = ''.cbr'' \<or> ext = ''.rar'' then loadCbr sys e
            else if ext = ''.pdf'' then loadPdf sys e
            else Inl (Err (''unknown file format ('' @ ext
                           @ ''): support .cbz, .zip, .cbr, .rar, .pdf'')))"

section \<open>The command line (\<open>main.go\<close>)\<close>

text \<open>
  The palettes are values of package \<open>imageconverter\<close>, which is not among the
  sources; only which palette a profile names is kept.
\<close>

datatype Palette = PALETTE_4 | PALETTE_15 | PALETTE_16

record Profile =
  Code :: string
  Description :: string
  Width :: int
  Height :: int
  Palette_p :: Palette

definition mk_Profile :: "string \<Rightarrow> string \<Rightarrow> int \<Rightarrow> int \<Rightarrow> Palette \<Rightarrow> Profile" where
  "mk_Profile c d w h p = \<lparr>Code = c, Description = d, Width = w, Height = h, Palette_p = p\<rparr>"

definition Profiles :: "Profile list" where
  "Profiles =
     [mk_Profile ''K1'' ''Kindle 1'' 600 670 PALETTE_4,
      mk_Profile ''K11'' ''Kindle 11'' 1072 1448 PALETTE_16,
      mk_Profile ''K2'' ''Kindle 2'' 600 670 PALETTE_15,
      mk_Profile ''K34'' ''Kindle Keyboard/Touch'' 600 800 PALETTE_16,
      mk_Profile ''K578'' ''Kindle'' 600 800 PALETTE_16,
      mk_Profile ''KDX'' ''Kindle DX/DXG'' 824 1000 PALETTE_16,
      mk_Profile ''KPW'' ''Kindle Paperwhite 1/2'' 758 1024 PALETTE_16,
      mk_Profile ''KV'' ''Kindle Paperwhite 3/4/Voyage/Oasis'' 1072 1448 PALETTE_16,
      mk_Profile ''KPW5'' ''Kindle Paperwhite 5/Signature Edition'' 1236 1648 PALETTE_16,
      mk_Profile ''KO'' ''Kindle Oasis 2/3'' 1264 1680 PALETTE_16,
      mk_Profile ''KS'' ''Kindle Scribe'' 1860 2480 PALETTE_16,
      mk_Profile ''KoMT'' ''Kobo Mini/Touch'' 600 800 PALETTE_16,
      mk_Profile ''KoG'' ''Kobo Glo'' 768 1024 PALETTE_16,
      mk_Profile ''KoGHD'' ''Kobo Glo HD'' 1072 1448 PALETTE_16,
      mk_Profile ''KoA'' ''Kobo Aura'' 758 1024 PALETTE_16,
      mk_Profile ''KoAHD'' ''Kobo Aura HD'' 1080 1440 PALETTE_16,
      mk_Profile ''KoAH2O'' ''Kobo Aura H2O'' 1080 1430 PALETTE_16,
      mk_Profile ''KoAO'' ''Kobo Aura ONE'' 1404 1872 PALETTE_16,
      mk_Profile ''KoN'' ''Kobo Nia'' 758 1024 PALETTE_16,
      mk_Profile ''KoC'' ''Kobo Clara HD/Kobo Clara 2E'' 1072 1448 PALETTE_16,
      mk_Profile ''KoL'' ''Kobo Libra H2O/Kobo Libra 2'' 1264 1680 PALETTE_16,
      mk_Profile ''KoF'' ''Kobo Forma'' 1440 1920 PALETTE_16,
      mk_Profile ''KoS'' ''Kobo Sage'' 1440 1920 PALETTE_16,
      mk_Profile ''KoE'' ''Kobo Elipsa'' 1404 1872 PALETTE_16]"

text \<open>\<open>init\<close> fills \<open>ProfilesIdx\<close> with the position of every profile code.\<close>

fun init_loop :: "Profile list \<Rightarrow> nat \<Rightarrow> (string \<rightharpoonup> nat) \<Rightarrow> (string \<rightharpoonup> nat)" where
  "init_loop [] i m = m"
| "init_loop (p # ps) i m = init_loop ps (Suc i) (m(Code p \<mapsto> i))"

definition ProfilesIdx :: "string \<rightharpoonup> nat" where
  "ProfilesIdx = init_loop Profiles 0 Map.empty"

text \<open>
  The flags. \<open>Quality\<close> and \<open>LimitMb\<close> are Go \<open>int\<close>s that are only compared and
  passed on, so they are integers here.
\<close>

record Option =
  Input_o :: string
  Output_o :: string
  Profile_o :: string
  Author_o :: string
  Title_o :: string
  Quality_o :: int
  NoCrop_o :: bool
  Algo_o :: string
  LimitMb_o :: int

record ImageOptions =
  ViewWidth :: int
  ViewHeight :: int
  Quality :: int
  Crop :: bool
  Algo :: string
  Palette_i :: Palette

record EpubOptions =
  Input_e :: string
  Output_e :: string
  LimitMb_e :: int
  Title_e :: string
  Author_e :: string
  ImageOptions_e :: ImageOptions

text \<open>The size limit as \<open>Option.String\<close> prints it.\<close>

definition String_limitmb :: "Option \<Rightarrow> string" where
  "String_limitmb opt =
     (if LimitMb_o opt > 0 then Sprintf_d (nat (LimitMb_o opt)) @ '' Mb'' else ''nolimit'')"

text \<open>
  \<open>main\<close> after \<open>flag.Parse\<close>, in the blocks of the source: \<open>defaultOutput_of\<close>,
  \<open>output_of\<close>, then \<open>convert\<close>. \<open>opt\<close> holds the parsed flags. Each failed check writes
  one line to standard error, prints the usage and exits with status 1
  (\<open>Rejected\<close> with that line); when all pass, \<open>epub.NewEpub(...).Write()\<close> is called
  with the options built (\<open>Converted\<close> with them and the error \<open>Write\<close> returned), and
  the process exits with status 1 if there was an error, 0 otherwise. \<open>ALGO_GRAY\<close>
  stands for the keys of the map of that name in package \<open>imageconverter\<close>.
\<close>

datatype main_result = Rejected string | Converted EpubOptions "error option"

fun exit_status :: "main_result \<Rightarrow> nat" where
  "exit_status (Rejected msg) = 1"
| "exit_status (Converted eo (Some err)) = 1"
| "exit_status (Converted eo None) = 0"

definition defaultOutput_of :: "'img system \<Rightarrow> string \<Rightarrow> bool \<Rightarrow> string" where
  "defaultOutput_of sys input fi_IsDir =
     (let inputBase = filepath_Clean sys input in
      if fi_IsDir then inputBase @ ''.epub''
      else
        let ext = Ext inputBase
        in take (length inputBase - length ext) inputBase @ ''.epub'')"

definition output_of :: "'img system \<Rightarrow> string \<Rightarrow> Option \<Rightarrow> string + Option" where
  "output_of sys defaultOutput opt =
     (if Ext (Output_o opt) \<noteq> ''.epub'' then
        (case os_Stat sys (Output_o opt) of
           Inl err \<Rightarrow> Inl (Error err @ [newline])
         | Inr fo_IsDir \<Rightarrow>
             if \<not> fo_IsDir then
               Inl (''output must be an existing dir or end with .epub'' @ [newline])
             else
               Inr (opt\<lparr>Output_o := filepath_Join sys (Output_o opt) (Base defaultOutput)\<rparr>))
      else Inr opt)"

text \<open>
  The second half of \<open>main\<close>, from the profile lookup on: \<open>profile\<close>, the size limit,
  the default title, the gray-scale algorithm, and the call of the converter.
\<close>

definition EpubOptions_of :: "Profile \<Rightarrow> Option \<Rightarrow> EpubOptions" where
  "EpubOptions_of profile opt =
     \<lparr>Input_e = Input_o opt, Output_e = Output_o opt,
      LimitMb_e = LimitMb_o opt, Title_e = Title_o opt,
      Author_e = Author_o opt,
      ImageOptions_e =
        \<lparr>ViewWidth = Width profile, ViewHeight = Height profile,
         Quality = Quality_o opt, Crop = (\<not> NoCrop_o opt),
         Algo = Algo_o opt, Palette_i = Palette_p profile\<rparr>\<rparr>"

definition title_of :: "string \<Rightarrow> Option \<Rightarrow> Option" where
  "title_of defaultOutput opt =
     (if Title_o opt = [] then
        opt\<lparr>Title_o :=
          Base (take (length defaultOutput - length (Ext defaultOutput)) defaultOutput)\<rparr>
      else opt)"

definition convert ::
  "string \<Rightarrow> string list \<Rightarrow> (EpubOptions \<Rightarrow> error option) \<Rightarrow> Option \<Rightarrow> main_result" where
  "convert defaultOutput ALGO_GRAY Write opt =
     (case ProfilesIdx (Profile_o opt) of
        None \<Rightarrow> Rejected (''Profile doesn't exists!'' @ [newline])
      | Some profileIdx \<Rightarrow>
          (let profile = Profiles ! profileIdx in
           if LimitMb_o opt > 0 \<and> LimitMb_o opt < 20 then
             Rejected (''LimitMb should be 0 or >= 20'' @ [newline])
           else
             let opt = title_of defaultOutput opt
             in if Algo_o opt \<notin> set ALGO_GRAY then
                  Rejected (''algo doesn't exists'' @ [newline])
                else
                  let eo = EpubOptions_of profile opt
                  in Converted eo (Write eo)))"

definition main ::
  "'img system \<Rightarrow> string list \<Rightarrow> (EpubOptions \<Rightarrow> error option) \<Rightarrow> Option \<Rightarrow> main_result" where
  "main sys ALGO_GRAY Write opt =
     (if Input_o opt = [] then Rejected (''Missing input or output!'' @ [newline])
      else
        case os_Stat sys (Input_o opt) of
          Inl err \<Rightarrow> Rejected (Error err @ [newline])
        | Inr fi_IsDir \<Rightarrow>
            (let defaultOutput = defaultOutput_of sys (Input_o opt) fi_IsDir;
                 opt = (if Output_o opt = [] then opt\<lparr>Output_o := defaultOutput\<rparr> else opt)
             in case output_of sys defaultOutput opt of
                  Inl msg \<Rightarrow> Rejected msg
                | Inr opt \<Rightarrow> convert defaultOutput ALGO_GRAY Write opt))"

section \<open>Notions used to state the properties\<close>

text \<open>The four extensions the loader accepts, without the dot and in lower case.\<close>

definition supported_extensions :: "string set" where
  "supported_extensions = {''jpg'', ''jpeg'', ''png'', ''webp''}"



text \<open>
  The value of a string of decimal digits, read independently of \<open>Sprintf_d\<close>.
\<close>

definition digit_value :: "char \<Rightarrow> nat" where
  "digit_value c = (case map_of (zip ''0123456789'' [0..<10]) c of Some d \<Rightarrow> d | None \<Rightarrow> 0)"

definition decimal_value :: "string \<Rightarrow> nat" where
  "decimal_value s = foldl (\<lambda>a c. 10 * a + digit_value c) 0 s"

text \<open>
  One job for every streamed member whose name is in the index and whose bytes were
  copied, in the order of the stream, each with a reader over the copied bytes.
\<close>

definition wanted_jobs :: "(string \<rightharpoonup> nat) \<Rightarrow> (string \<times> (error + bytes)) list \<Rightarrow> cbr_job list" where
  "wanted_jobs idx entries =
     concat (map (\<lambda>(name, copied).
                    case (idx name, copied) of
                      (Some i, Inr b) \<Rightarrow> [(i, name, Inr b)]
                    | _ \<Rightarrow> []) entries)"

text \<open>The last element of a path, as \<open>Split\<close> returns it.\<close>

definition file_of :: "string \<Rightarrow> string" where
  "file_of path = rev (takeWhile (\<lambda>c. \<not> IsPathSeparator c) (rev path))"


text \<open>
  The outcome of \<open>main\<close> with another size limit handed to the converter: a rejection
  stays as it is, a conversion is run with the limit replaced.
\<close>

definition with_limit :: "(EpubOptions \<Rightarrow> error option) \<Rightarrow> int \<Rightarrow> main_result \<Rightarrow> main_result" where
  "with_limit Write v r =
     (case r of
        Rejected msg \<Rightarrow> Rejected msg
      | Converted eo res \<Rightarrow> Converted (eo\<lparr>LimitMb_e := v\<rparr>) (Write (eo\<lparr>LimitMb_e := v\<rparr>)))"

section \<open>Example inputs\<close>

text \<open>
  A machine on which every call fails, with the identity for \<open>filepath.Clean\<close> (the
  example paths are clean), \<open>/\<close>-joining for \<open>filepath.Join\<close>, byte-wise
  lexicographic order for the sort, and a decoder that gives the length of its input and
  rejects the empty input. The examples below replace some of its fields.
\<close>

definition base_system :: "nat system" where
  "base_system =
     \<lparr>os_Stat = (\<lambda>p. Inl (Err ''no such file or directory'')),
      filepath_WalkDir = (\<lambda>p. []),
      os_Open = (\<lambda>p. Inl (Err ''no such file or directory'')),
      image_Decode = (\<lambda>b. if b = [] then Inl (Err ''image: unknown format'') else Inr (length b)),
      zip_OpenReader = (\<lambda>p. Inl (Err ''zip: not a valid zip file'')),
      rardecode_List = (\<lambda>p. Inl (Err ''rardecode: not a rar file'')),
      rardecode_OpenReader = (\<lambda>p. Inl (Err ''rardecode: not a rar file'')),
      pdfread_Load = (\<lambda>p. None),
      filepath_Clean = (\<lambda>p. p),
      filepath_Join = (\<lambda>p q. p @ ''/'' @ q),
      sortpath_By = (\<lambda>names mode. sort names)\<rparr>"

definition processor :: "string \<Rightarrow> bool \<Rightarrow> EPUBImageProcessor" where
  "processor input dry = \<lparr>Input = input, Dry = dry, SortPathMode = 1, WorkersRatio = (\<lambda>pct. 2)\<rparr>"

text \<open>A PDF of \<open>n\<close> pages each of which extracts.\<close>

definition pdf_system :: "nat \<Rightarrow> nat system" where
  "pdf_system n =
     base_system\<lparr>os_Stat := (\<lambda>p. Inr False),
                  pdfread_Load := (\<lambda>p. Some \<lparr>Pages = n, Extract = (\<lambda>page. Inr page)\<rparr>)\<rparr>"

text \<open>A PDF of one page whose extraction fails.\<close>

definition failing_pdf :: "nat system" where
  "failing_pdf =
     base_system\<lparr>os_Stat := (\<lambda>p. Inr False),
        pdfread_Load := (\<lambda>p. Some \<lparr>Pages = 1,
                                     Extract = (\<lambda>page. Inl (Err ''unsupported image filter''))\<rparr>)\<rparr>"

definition zip_member :: "string \<Rightarrow> bytes \<Rightarrow> zip_File" where
  "zip_member name content = \<lparr>Name_z = name, IsDir_z = False, Open_z = Inr content\<rparr>"

definition rar_member :: "string \<Rightarrow> bool \<Rightarrow> rar_File" where
  "rar_member name solid =
     \<lparr>Name_r = name, IsDir_r = False, Solid_r = solid,
      Open_r = (if solid then Inl (Err ''rardecode: solid file'') else Inr name)\<rparr>"

text \<open>A zip archive with two members of the same name.\<close>

definition duplicate_zip :: "nat system" where
  "duplicate_zip =
     base_system\<lparr>os_Stat := (\<lambda>p. Inr False),
                  zip_OpenReader := (\<lambda>p. Inr [zip_member ''a.jpg'' ''x'', zip_member ''a.jpg'' ''yy''])\<rparr>"


text \<open>
  A solid rar archive with two images and a text file; the sequential reader yields the
  same members and then \<open>io.EOF\<close>.
\<close>

definition solid_rar_files :: "rar_File list" where
  "solid_rar_files =
     [rar_member ''b/2.jpg'' True, rar_member ''notes.txt'' True, rar_member ''b/1.png'' True]"

definition solid_rar_entries :: "(string \<times> (error + bytes)) list" where
  "solid_rar_entries =
     [(''b/2.jpg'', Inr ''xx''), (''notes.txt'', Inr ''n''), (''b/1.png'', Inr ''y'')]"

definition solid_rar :: "nat system" where
  "solid_rar =
     base_system\<lparr>os_Stat := (\<lambda>p. Inr False),
        rardecode_List := (\<lambda>p. Inr solid_rar_files),
        rardecode_OpenReader := (\<lambda>p. Inr (solid_rar_entries, (None, io_EOF)))\<rparr>"

text \<open>
  A directory, a zip archive and a rar archive that each hold two images and a text file.
\<close>

definition shelf :: "nat system" where
  "shelf =
     base_system\<lparr>
        filepath_WalkDir := (\<lambda>root. [(''d'', True, None), (''d/1.JPG'', False, None),
                                        (''d/notes.txt'', False, None), (''d/2.png'', False, None)]),
        os_Open := (\<lambda>p. Inr p),
        zip_OpenReader := (\<lambda>p. Inr [zip_member ''d/1.JPG'' ''x'', zip_member ''d/notes.txt'' ''n'',
                                      zip_member ''d/2.png'' ''yy'']),
        rardecode_List := (\<lambda>p. Inr [rar_member ''d/1.JPG'' False, rar_member ''d/notes.txt'' False,
                                      rar_member ''d/2.png'' False])\<rparr>"

text \<open>
  A command line: \<open>in/comic.cbz\<close> is a file, \<open>in\<close> and \<open>out\<close> are directories;
  \<open>flags\<close> are the parsed options for an output and a size limit, \<open>converted\<close> the
  options the converter is expected to receive.
\<close>

definition desk :: "nat system" where
  "desk =
     base_system\<lparr>os_Stat :=
        (\<lambda>p. if p = ''in/comic.cbz'' then Inr False
              else if p = ''out'' \<or> p = ''in'' then Inr True
              else Inl (Err ''stat: no such file or directory''))\<rparr>"

definition flags :: "string \<Rightarrow> int \<Rightarrow> Option" where
  "flags output limit =
     \<lparr>Input_o = ''in/comic.cbz'', Output_o = output, Profile_o = ''KS'',
      Author_o = ''GO Comic Converter'', Title_o = [], Quality_o = 85, NoCrop_o = False,
      Algo_o = ''default'', LimitMb_o = limit\<rparr>"

definition converted :: "string \<Rightarrow> int \<Rightarrow> EpubOptions" where
  "converted output limit =
     \<lparr>Input_e = ''in/comic.cbz'', Output_e = output, LimitMb_e = limit, Title_e = ''comic'',
      Author_e = ''GO Comic Converter'',
      ImageOptions_e = \<lparr>ViewWidth = 1860, ViewHeight = 2480, Quality = 85, Crop = True,
                        Algo = ''default'', Palette_i = PALETTE_16\<rparr>\<rparr>"

section \<open>Extensions\<close>

lemma ext_scan_dot:
  "\<forall>c\<in>set xs. c \<noteq> CHR ''/'' \<and> c \<noteq> CHR ''.'' \<Longrightarrow>
   ext_scan (xs @ CHR ''.'' # ys) acc = CHR ''.'' # rev xs @ acc"
  by (induction xs arbitrary: acc) (auto simp: IsPathSeparator_def)

lemma ext_scan_nonempty:
  "ext_scan cs acc \<noteq> [] \<Longrightarrow>
   \<exists>xs ys. cs = xs @ CHR ''.'' # ys \<and> (\<forall>c\<in>set xs. c \<noteq> CHR ''/'' \<and> c \<noteq> CHR ''.'')"
proof (induction cs arbitrary: acc)
  case Nil
  then show ?case by simp
next
  case (Cons c cs)
  show ?case
  proof (cases "c = CHR ''.''")
    case True
    then have "c # cs = [] @ CHR ''.'' # cs \<and> (\<forall>c\<in>set []. c \<noteq> CHR ''/'' \<and> c \<noteq> CHR ''.'')"
      by simp
    then show ?thesis by blast
  next
    case False
    with Cons.prems have sep: "c \<noteq> CHR ''/''" and rest: "ext_scan cs (c # acc) \<noteq> []"
      by (auto simp: IsPathSeparator_def split: if_splits)
    from Cons.IH [OF rest] obtain xs ys where
      "cs = xs @ CHR ''.'' # ys" "\<forall>c\<in>set xs. c \<noteq> CHR ''/'' \<and> c \<noteq> CHR ''.''"
      by blast
    with False sep have "c # cs = (c # xs) @ CHR ''.'' # ys
        \<and> (\<forall>c\<in>set (c # xs). c \<noteq> CHR ''/'' \<and> c \<noteq> CHR ''.'')"
      by simp
    then show ?thesis by blast
  qed
qed

lemma Ext_dot:
  assumes "CHR ''.'' \<notin> set suf" "CHR ''/'' \<notin> set suf"
  shows "Ext (pre @ CHR ''.'' # suf) = CHR ''.'' # suf"
proof -
  have "\<forall>c\<in>set (rev suf). c \<noteq> CHR ''/'' \<and> c \<noteq> CHR ''.''"
    using assms by auto
  from ext_scan_dot [OF this, of "rev pre" "[]"] show ?thesis
    by (simp add: Ext_def)
qed

lemma Ext_nonempty:
  assumes "Ext p \<noteq> []"
  shows "\<exists>pre suf. p = pre @ CHR ''.'' # suf \<and> CHR ''.'' \<notin> set suf \<and> CHR ''/'' \<notin> set suf"
proof -
  from assms obtain xs ys where r: "rev p = xs @ CHR ''.'' # ys"
    and x: "\<forall>c\<in>set xs. c \<noteq> CHR ''/'' \<and> c \<noteq> CHR ''.''"
    unfolding Ext_def using ext_scan_nonempty by blast
  from r have "rev (rev p) = rev (xs @ CHR ''.'' # ys)" by simp
  then have "p = rev ys @ CHR ''.'' # rev xs" by simp
  moreover from x have "CHR ''.'' \<notin> set (rev xs) \<and> CHR ''/'' \<notin> set (rev xs)" by auto
  ultimately show ?thesis by blast
qed

lemma ToLower_dot: "ToLower (CHR ''.'' # s) = CHR ''.'' # ToLower s"
  by (simp add: lower_byte_def)

lemma isSupportedImage_iff:
  "isSupportedImage path \<longleftrightarrow>
     (\<exists>pre suf. path = pre @ CHR ''.'' # suf \<and> CHR ''.'' \<notin> set suf \<and> CHR ''/'' \<notin> set suf
        \<and> ToLower suf \<in> supported_extensions)"
proof
  assume s: "isSupportedImage path"
  then have ne: "Ext path \<noteq> []"
    by (auto simp: isSupportedImage_def Let_def split: if_splits)
  from Ext_nonempty [OF ne] obtain pre suf where
    p: "path = pre @ CHR ''.'' # suf" and d: "CHR ''.'' \<notin> set suf" "CHR ''/'' \<notin> set suf"
    by blast
  have "Ext path = CHR ''.'' # suf" using p Ext_dot [OF d] by simp
  with s have "ToLower suf \<in> supported_extensions"
    by (auto simp: isSupportedImage_def Let_def ToLower_dot supported_extensions_def
             simp del: ToLower.simps split: if_splits)
  with p d show "\<exists>pre suf. path = pre @ CHR ''.'' # suf \<and> CHR ''.'' \<notin> set suf
      \<and> CHR ''/'' \<notin> set suf \<and> ToLower suf \<in> supported_extensions"
    by blast
next
  assume "\<exists>pre suf. path = pre @ CHR ''.'' # suf \<and> CHR ''.'' \<notin> set suf \<and> CHR ''/'' \<notin> set suf
        \<and> ToLower suf \<in> supported_extensions"
  then obtain pre suf where
    p: "path = pre @ CHR ''.'' # suf" and d: "CHR ''.'' \<notin> set suf" "CHR ''/'' \<notin> set suf"
    and l: "ToLower suf \<in> supported_extensions"
    by blast
  have "Ext path = CHR ''.'' # suf" using p Ext_dot [OF d] by simp
  with l show "isSupportedImage path"
    by (auto simp: isSupportedImage_def Let_def ToLower_dot supported_extensions_def
             simp del: ToLower.simps)
qed

section \<open>Listing\<close>

lemma WalkDir_append:
  "WalkDir (vs @ ws) images =
     (case WalkDir vs images of Inl err \<Rightarrow> Inl err | Inr images' \<Rightarrow> WalkDir ws images')"
  by (induction vs arbitrary: images) (auto split: sum.splits)

lemma WalkDir_skip:
  "\<not> isSupportedImage path \<Longrightarrow>
   WalkDir (vs @ (path, False, None) # ws) images = WalkDir (vs @ ws) images"
  by (simp add: WalkDir_append split: sum.splits)

lemma cbz_images_skip:
  "\<not> isSupportedImage (Name_z f) \<Longrightarrow> cbz_images (fs @ f # gs) = cbz_images (fs @ gs)"
  by (simp add: cbz_images_def)

section \<open>The PDF loop and decimal numerals\<close>

lemma pdf_pages_shape:
  "pdf_pages e pdf w is = (ts, st) \<Longrightarrow>
     length ts \<le> length is
   \<and> map Id_t ts = take (length ts) is
   \<and> map Name_t ts = map (\<lambda>i. Sprintf_pageFmt w (i + 1)) (take (length ts) is)
   \<and> (\<forall>t\<in>set ts. Path_t t = [])
   \<and> (st = Closed \<longrightarrow> length ts = length is)"
proof (induction "is" arbitrary: ts st)
  case Nil
  then show ?case by simp
next
  case (Cons i rest)
  show ?case
  proof (cases "pdf_pages e pdf w rest")
    case (Pair ts' st')
    from Cons.IH [OF Pair] Cons.prems Pair show ?thesis
      by (auto split: if_splits sum.splits)
  qed
qed



lemma load_pdf:
  "os_Stat sys (Input e) = Inr False \<Longrightarrow> ToLower (Ext (Input e)) = ''.pdf'' \<Longrightarrow>
   load sys e = loadPdf sys e"
  by (simp add: load_def)

lemma length_Sprintf_d_pos: "0 < length (Sprintf_d n)"
  by (subst Sprintf_d.simps) simp

lemma length_Sprintf_d_mono: "m \<le> n \<Longrightarrow> length (Sprintf_d m) \<le> length (Sprintf_d n)"
proof (induction n arbitrary: m rule: Sprintf_d.induct)
  case (1 n)
  show ?case
  proof (cases "n < 10")
    case True
    with "1.prems" have "m < 10" by simp
    with True show ?thesis by (simp add: Sprintf_d.simps [of m] Sprintf_d.simps [of n])
  next
    case False
    show ?thesis
    proof (cases "m < 10")
      case True
      with False show ?thesis
        by (simp add: Sprintf_d.simps [of m] Sprintf_d.simps [of n])
    next
      case m: False
      from "1.prems" have "m div 10 \<le> n div 10" by (simp add: div_le_mono)
      from "1.IH" [OF False this] m False show ?thesis
        by (simp add: Sprintf_d.simps [of m] Sprintf_d.simps [of n])
    qed
  qed
qed

lemma digit_value_nth: "d < 10 \<Longrightarrow> digit_value (''0123456789'' ! d) = d"
proof -
  assume "d < 10"
  then have "d \<in> {0,1,2,3,4,5,6,7,8,9}" by auto
  then show ?thesis by (auto simp: digit_value_def upt_conv_Cons)
qed

lemma digit_nth_mem: "d < 10 \<Longrightarrow> ''0123456789'' ! d \<in> set ''0123456789''"
  using nth_mem [of d "''0123456789''"] by simp

lemma decimal_value_snoc: "decimal_value (s @ [c]) = 10 * decimal_value s + digit_value c"
  by (simp add: decimal_value_def)

lemma decimal_value_Sprintf_d: "decimal_value (Sprintf_d n) = n"
proof (induction n rule: Sprintf_d.induct)
  case (1 n)
  show ?case
  proof (cases "n < 10")
    case True
    then show ?thesis
      by (simp add: Sprintf_d.simps [of n] decimal_value_def digit_value_nth)
  next
    case False
    have "n mod 10 < 10" by simp
    with "1.IH" [OF False] False show ?thesis
      by (simp add: Sprintf_d.simps [of n] decimal_value_snoc digit_value_nth)
  qed
qed

lemma set_Sprintf_d: "set (Sprintf_d n) \<subseteq> set ''0123456789''"
proof (induction n rule: Sprintf_d.induct)
  case (1 n)
  show ?case
  proof (cases "n < 10")
    case True
    from digit_nth_mem [OF True] True show ?thesis
      by (simp add: Sprintf_d.simps [of n])
  next
    case False
    have "n mod 10 < 10" by simp
    from digit_nth_mem [OF this] "1.IH" [OF False] False show ?thesis
      by (simp add: Sprintf_d.simps [of n])
  qed
qed

lemma decimal_value_zeros: "decimal_value (replicate k (CHR ''0'') @ s) = decimal_value s"
proof -
  have z: "digit_value (CHR ''0'') = 0"
    by (simp add: digit_value_def upt_conv_Cons)
  have "foldl (\<lambda>a c. 10 * a + digit_value c) 0 (replicate k (CHR ''0'')) = 0"
    by (induction k) (simp_all add: z)
  then show ?thesis by (simp add: decimal_value_def)
qed

lemma Sprintf_d_upper: "n < 10 ^ length (Sprintf_d n)"
proof (induction n rule: Sprintf_d.induct)
  case (1 n)
  show ?case
  proof (cases "n < 10")
    case True
    then show ?thesis by (simp add: Sprintf_d.simps [of n])
  next
    case False
    from "1.IH" [OF False] have "n div 10 < 10 ^ length (Sprintf_d (n div 10))" .
    then have "n < 10 * 10 ^ length (Sprintf_d (n div 10))" by linarith
    with False show ?thesis by (simp add: Sprintf_d.simps [of n])
  qed
qed

lemma Sprintf_d_lower: "0 < n \<Longrightarrow> 10 ^ (length (Sprintf_d n) - 1) \<le> n"
proof (induction n rule: Sprintf_d.induct)
  case (1 n)
  show ?case
  proof (cases "n < 10")
    case True
    with "1.prems" show ?thesis by (simp add: Sprintf_d.simps [of n])
  next
    case False
    then have "0 < n div 10" by simp
    from "1.IH" [OF False this] have "10 ^ (length (Sprintf_d (n div 10)) - 1) \<le> n div 10" .
    then have "10 * 10 ^ (length (Sprintf_d (n div 10)) - 1) \<le> n" by linarith
    moreover have "0 < length (Sprintf_d (n div 10))" by (rule length_Sprintf_d_pos)
    ultimately show ?thesis using False
      by (simp add: Sprintf_d.simps [of n] power_Suc [symmetric] del: power_Suc)
  qed
qed

section \<open>Dry run and real run\<close>



















































section \<open>The solid rar archive\<close>

lemma solid_jobs_EOF:
  assumes "\<forall>(name, copied)\<in>set entries. idx name \<noteq> None \<longrightarrow> (\<exists>b. copied = Inr b)"
  shows "solid_jobs idx entries (f, io_EOF) = (wanted_jobs idx entries, Closed)"
  using assms
proof (induction entries)
  case Nil
  show ?case by (simp add: wanted_jobs_def)
next
  case (Cons en entries)
  obtain name copied where en: "en = (name, copied)" by (cases en)
  from Cons.prems have "\<forall>(name, copied)\<in>set entries. idx name \<noteq> None \<longrightarrow> (\<exists>b. copied = Inr b)"
    by simp
  from Cons.IH [OF this] have ih: "solid_jobs idx entries (f, io_EOF) = (wanted_jobs idx entries, Closed)" .
  show ?case
  proof (cases "idx name")
    case None
    with ih en show ?thesis by (simp add: wanted_jobs_def)
  next
    case (Some i)
    with Cons.prems en obtain b where "copied = Inr b" by auto
    with ih en Some show ?thesis by (simp add: wanted_jobs_def)
  qed
qed

lemma wanted_jobs_mem:
  "(i, name, opened) \<in> set (wanted_jobs idx entries) \<Longrightarrow>
   idx name = Some i \<and> (\<exists>b. opened = Inr b \<and> (name, Inr b) \<in> set entries)"
  by (induction entries) (auto simp: wanted_jobs_def split: option.splits sum.splits)

lemma wanted_jobs_length:
  "\<forall>(name, copied)\<in>set entries. idx name \<noteq> None \<longrightarrow> (\<exists>b. copied = Inr b) \<Longrightarrow>
   length (wanted_jobs idx entries) = length (filter (\<lambda>(name, copied). idx name \<noteq> None) entries)"
  by (induction entries) (auto simp: wanted_jobs_def split: option.splits sum.splits)

lemma cbr_isSolid_mem:
  "f \<in> set files \<Longrightarrow> \<not> IsDir_r f \<Longrightarrow> isSupportedImage (Name_r f) \<Longrightarrow> Solid_r f \<Longrightarrow> cbr_isSolid files"
  by (auto simp: cbr_isSolid_def cbr_wanted_def list_ex_iff)

text \<open>
  Claim C4. For a rar input with a qualifying member marked solid, in a real run, when
  the one sequential reader opens and ends with \<open>io.EOF\<close> and every wanted member
  copies: the producer queues exactly one job for each streamed member whose name is in
  the index, in stream order, with the index of that name and a reader over the copied
  bytes; members not in the index give no job; and the producer ends normally. These
  jobs are what \<open>loadCbr\<close> hands to its workers.
\<close>

theorem solid_rar_streaming:
  assumes "f \<in> set files" "\<not> IsDir_r f" "isSupportedImage (Name_r f)" "Solid_r f"
    and "\<not> Dry e"
    and "rardecode_OpenReader sys (Input e) = Inr (entries, (h, io_EOF))"
    and "\<forall>(name, copied)\<in>set entries. idx name \<noteq> None \<longrightarrow> (\<exists>b. copied = Inr b)"
  shows "cbr_producer sys e (cbr_isSolid files) files idx = (wanted_jobs idx entries, Closed)
    \<and> (\<forall>(i, name, opened)\<in>set (wanted_jobs idx entries).
          idx name = Some i \<and> (\<exists>b. opened = Inr b \<and> (name, Inr b) \<in> set entries))
    \<and> length (wanted_jobs idx entries)
        = length (filter (\<lambda>(name, copied). idx name \<noteq> None) entries)
    \<and> (rardecode_List sys (Input e) = Inr files
          \<and> idx = indexedNames (sortpath_By sys (cbr_names files) (SortPathMode e)) \<longrightarrow>
        loadCbr sys e
          = Inr (length (cbr_names files),
                 pool (WorkersRatio e 50) (cbr_worker sys e) (wanted_jobs idx entries, Closed)))"
proof -
  from cbr_isSolid_mem [OF assms(1-4)] assms(5,6) solid_jobs_EOF [OF assms(7)]
  have p: "cbr_producer sys e (cbr_isSolid files) files idx = (wanted_jobs idx entries, Closed)"
    by (simp add: cbr_producer_def)
  from assms(1-3) have "Name_r f \<in> set (cbr_names files)"
    by (simp add: cbr_names_def cbr_wanted_def)
  then have ne: "cbr_names files \<noteq> []" by auto
  have l: "loadCbr sys e
      = Inr (length (cbr_names files),
             pool (WorkersRatio e 50) (cbr_worker sys e) (wanted_jobs idx entries, Closed))"
    if "rardecode_List sys (Input e) = Inr files"
      "idx = indexedNames (sortpath_By sys (cbr_names files) (SortPathMode e))"
    using that ne p by (simp add: loadCbr_def Let_def)
  from p l wanted_jobs_mem [of _ _ _ idx entries] wanted_jobs_length [OF assms(7)]
  show ?thesis by auto
qed

text \<open>An instance of the statement above, on the example input.\<close>

theorem solid_rar_streaming_witness:
  "cbr_producer solid_rar (processor ''c.cbr'' False) (cbr_isSolid solid_rar_files)
      solid_rar_files (indexedNames [''b/1.png'', ''b/2.jpg''])
     = ([(1, ''b/2.jpg'', Inr ''xx''), (0, ''b/1.png'', Inr ''y'')], Closed)
   \<and> loadCbr solid_rar (processor ''c.cbr'' False)
     = Inr (2, pool 2 (cbr_worker solid_rar (processor ''c.cbr'' False))
                 ([(1, ''b/2.jpg'', Inr ''xx''), (0, ''b/1.png'', Inr ''y'')], Closed))"
proof -
  let ?idx = "indexedNames [''b/1.png'', ''b/2.jpg'']"
  let ?e = "processor ''c.cbr'' False"
  have 1: "rar_member ''b/2.jpg'' True \<in> set solid_rar_files"
    by (simp add: solid_rar_files_def)
  have 2: "\<not> IsDir_r (rar_member ''b/2.jpg'' True)" and 4: "Solid_r (rar_member ''b/2.jpg'' True)"
    by (simp_all add: rar_member_def)
  have 3: "isSupportedImage (Name_r (rar_member ''b/2.jpg'' True))"
    by code_simp
  have 5: "\<not> Dry ?e"
    by (simp add: processor_def)
  have 6: "rardecode_OpenReader solid_rar (Input ?e) = Inr (solid_rar_entries, (None, io_EOF))"
    by (simp add: solid_rar_def)
  have 7: "\<forall>(name, copied)\<in>set solid_rar_entries. ?idx name \<noteq> None \<longrightarrow> (\<exists>b. copied = Inr b)"
    by (simp add: solid_rar_entries_def)
  have 8: "wanted_jobs ?idx solid_rar_entries
      = [(1, ''b/2.jpg'', Inr ''xx''), (0, ''b/1.png'', Inr ''y'')]"
    by (simp add: wanted_jobs_def solid_rar_entries_def indexedNames_def)
  have 9: "rardecode_List solid_rar (Input ?e) = Inr solid_rar_files"
    by (simp add: solid_rar_def)
  have 10: "sortpath_By solid_rar (cbr_names solid_rar_files) (SortPathMode ?e)
      = [''b/1.png'', ''b/2.jpg'']"
    by code_simp
  have 11: "length (cbr_names solid_rar_files) = 2" "WorkersRatio ?e 50 = 2"
    by code_simp+
  from solid_rar_streaming [OF 1 2 3 4 5 6 7] 8 9 10 11 show ?thesis by simp
qed

section \<open>Failures of single entries\<close>

lemma open_decode_fails:
  assumes "\<not> Dry e"
    and "opened = Inl err \<or> (\<exists>b. opened = Inr b \<and> image_Decode sys b = Inl err)"
  shows "open_decode sys e name opened = Inl (Exited 1 (error_processing_image name err))"
  using assms by (auto simp: open_decode_def)

lemma run_jobs_fatal:
  assumes "j \<in> set js" "w j = Inl F"
  shows "\<exists>j'\<in>set js. \<exists>F'. w j' = Inl F' \<and> snd (run_jobs w js) = Fatal F'"
  using assms
proof (induction js)
  case Nil
  then show ?case by simp
next
  case (Cons a js)
  show ?case
  proof (cases "w a")
    case (Inl F')
    then show ?thesis by simp
  next
    case (Inr t)
    with Cons.prems have "j \<in> set js" by auto
    from Cons.IH [OF this Cons.prems(2)] obtain j' F' where
      m: "j' \<in> set js" "w j' = Inl F'" and s: "snd (run_jobs w js) = Fatal F'"
      by blast
    from s Inr have "snd (run_jobs w (a # js)) = Fatal F'"
      by (cases "run_jobs w js") simp
    with m show ?thesis by auto
  qed
qed

lemma pool_fatal:
  assumes "0 < n" "j \<in> set js" "w j = Inl F"
  shows "\<exists>j'\<in>set js. \<exists>F'. w j' = Inl F' \<and> snd (pool n w (js, pst)) = Fatal F'"
proof -
  from run_jobs_fatal [of j js w F] assms(2,3) obtain j' F' where
    "j' \<in> set js" "w j' = Inl F'" "snd (run_jobs w js) = Fatal F'"
    by blast
  with assms(1) show ?thesis
    by (auto simp: pool_def split: prod.splits)
qed

lemma pdf_pages_fatal:
  assumes "\<not> Dry e" "i \<in> set is" "Extract pdf (i + 1) = Inl err"
  shows "\<exists>i'\<in>set is. \<exists>err'. Extract pdf (i' + 1) = Inl err'
           \<and> snd (pdf_pages e pdf w is) = Fatal (Exited 1 (Error err' @ [newline]))"
  using assms(2,3)
proof (induction "is")
  case Nil
  then show ?case by simp
next
  case (Cons a rest)
  show ?case
  proof (cases "Extract pdf (a + 1)")
    case (Inl err')
    with assms(1) show ?thesis by simp
  next
    case (Inr img)
    with Cons.prems have "i \<in> set rest" by auto
    from Cons.IH [OF this Cons.prems(2)] obtain i' err' where
      m: "i' \<in> set rest" "Extract pdf (i' + 1) = Inl err'"
      and s: "snd (pdf_pages e pdf w rest) = Fatal (Exited 1 (Error err' @ [newline]))"
      by blast
    from s Inr assms(1) have "snd (pdf_pages e pdf w (a # rest))
        = Fatal (Exited 1 (Error err' @ [newline]))"
      by (cases "pdf_pages e pdf w rest") simp
    with m show ?thesis by auto
  qed
qed

text \<open>
  In a real run, when opening or decoding an entry fails, the worker of a directory, zip
  or rar input writes \<open>error processing image <path or name>: <error>\<close> between two
  newlines and exits with status 1; a pool with at least one worker whose queue holds a
  job on which the worker fails never closes the output: the run ends with the failure of
  such a job. The page loop of a PDF input ends the run with status 1 as well when a page
  cannot be extracted.
\<close>

lemma entry_failure_is_fatal:
  assumes "\<not> Dry e"
    and "opened = Inl err \<or> (\<exists>b. opened = Inr b \<and> image_Decode sys b = Inl err)"
  shows "(os_Open sys path = opened \<longrightarrow>
            dir_worker sys e input (i, path) = Inl (Exited 1 (error_processing_image path err)))
    \<and> (Open_z f = opened \<longrightarrow>
            cbz_worker sys e (i, f) = Inl (Exited 1 (error_processing_image (Name_z f) err)))
    \<and> cbr_worker sys e (i, name, opened) = Inl (Exited 1 (error_processing_image name err))
    \<and> (\<forall>n w j js pst F. 0 < n \<and> j \<in> set js \<and> w j = Inl F \<longrightarrow>
          (\<exists>j'\<in>set js. \<exists>F'. w j' = Inl F'
              \<and> snd (pool n (w :: 'j \<Rightarrow> fatal + 'a tasks) (js, pst)) = Fatal F'))
    \<and> (\<forall>pdf k ks w perr. k \<in> set ks \<and> Extract pdf (k + 1) = Inl perr \<longrightarrow>
          (\<exists>k'\<in>set ks. \<exists>err'. Extract pdf (k' + 1) = Inl err'
              \<and> snd (pdf_pages e (pdf :: 'a pdf) w ks) = Fatal (Exited 1 (Error err' @ [newline]))))"
proof (intro conjI allI impI)
  assume "os_Open sys path = opened"
  with open_decode_fails [OF assms, of path]
  show "dir_worker sys e input (i, path) = Inl (Exited 1 (error_processing_image path err))"
    by (simp add: dir_worker_def)
next
  assume "Open_z f = opened"
  with open_decode_fails [OF assms, of "Name_z f"]
  show "cbz_worker sys e (i, f) = Inl (Exited 1 (error_processing_image (Name_z f) err))"
    by (simp add: cbz_worker_def)
next
  from open_decode_fails [OF assms, of name]
  show "cbr_worker sys e (i, name, opened) = Inl (Exited 1 (error_processing_image name err))"
    by (simp add: cbr_worker_def)
next
  fix n :: int and w :: "'j \<Rightarrow> fatal + 'a tasks" and j js pst F
  assume "0 < n \<and> j \<in> set js \<and> w j = Inl F"
  then have "0 < n" "j \<in> set js" "w j = Inl F" by simp_all
  then show "\<exists>j'\<in>set js. \<exists>F'. w j' = Inl F' \<and> snd (pool n w (js, pst)) = Fatal F'"
    by (rule pool_fatal)
next
  fix pdf :: "'a pdf" and k ks w perr
  assume "k \<in> set ks \<and> Extract pdf (k + 1) = Inl perr"
  then have "k \<in> set ks" "Extract pdf (k + 1) = Inl perr" by simp_all
  with assms(1) show "\<exists>k'\<in>set ks. \<exists>err'. Extract pdf (k' + 1) = Inl err'
      \<and> snd (pdf_pages e pdf w ks) = Fatal (Exited 1 (Error err' @ [newline]))"
    by (rule pdf_pages_fatal)
qed

text \<open>An instance of the statement above, on the example input.\<close>

lemma entry_failure_is_fatal_example:
  "dir_worker base_system (processor ''d'' False) ''d'' (0, ''d/1.jpg'')
     = Inl (Exited 1 (error_processing_image ''d/1.jpg'' (Err ''no such file or directory'')))
   \<and> cbr_worker base_system (processor ''d'' False)
        (0, ''1.jpg'', Inl (Err ''no such file or directory''))
     = Inl (Exited 1 (error_processing_image ''1.jpg'' (Err ''no such file or directory'')))
   \<and> snd (pool 2 (cbr_worker base_system (processor ''d'' False))
        ([(0, ''1.jpg'', Inl (Err ''no such file or directory''))], Closed))
     = Fatal (Exited 1 (error_processing_image ''1.jpg'' (Err ''no such file or directory'')))
   \<and> snd (pdf_pages (processor ''d'' False)
        \<lparr>Pages = 1, Extract = (\<lambda>page. Inl (Err ''unsupported image filter'') :: error + nat)\<rparr> 1 [0])
     = Fatal (Exited 1 (''unsupported image filter'' @ [newline]))"
proof -
  let ?e = "processor ''d'' False"
  let ?err = "Err ''no such file or directory''"
  let ?opened = "Inl ?err :: error + bytes"
  let ?pdf = "\<lparr>Pages = 1, Extract = (\<lambda>page. Inl (Err ''unsupported image filter'') :: error + nat)\<rparr>"
  let ?j = "(0, ''1.jpg'', ?opened) :: cbr_job"
  have 1: "\<not> Dry ?e" by (simp add: processor_def)
  have 2: "?opened = Inl ?err \<or> (\<exists>b. ?opened = Inr b \<and> image_Decode base_system b = Inl ?err)"
    by simp
  have o: "os_Open base_system ''d/1.jpg'' = ?opened"
    by (simp add: base_system_def)
  note t = entry_failure_is_fatal [OF 1 2, of "''d/1.jpg''" "''d''" 0 "zip_member [] []" "''1.jpg''"]
  from t [THEN conjunct1] o have a: "dir_worker base_system ?e ''d'' (0, ''d/1.jpg'')
      = Inl (Exited 1 (error_processing_image ''d/1.jpg'' ?err))"
    by (rule mp)
  from t [THEN conjunct2, THEN conjunct2, THEN conjunct1]
  have b: "cbr_worker base_system ?e ?j = Inl (Exited 1 (error_processing_image ''1.jpg'' ?err))" .
  from t [THEN conjunct2, THEN conjunct2, THEN conjunct2, THEN conjunct1] have "\<forall>n w j js pst F. 0 < n \<and> j \<in> set js \<and> w j = Inl F \<longrightarrow>
          (\<exists>j'\<in>set js. \<exists>F'. w j' = Inl F'
              \<and> snd (pool n (w :: cbr_job \<Rightarrow> fatal + nat tasks) (js, pst)) = Fatal F')" .
  then have "(0::int) < 2 \<and> ?j \<in> set [?j] \<and> cbr_worker base_system ?e ?j
        = Inl (Exited 1 (error_processing_image ''1.jpg'' ?err)) \<longrightarrow>
      (\<exists>j'\<in>set [?j]. \<exists>F'. cbr_worker base_system ?e j' = Inl F'
          \<and> snd (pool 2 (cbr_worker base_system ?e) ([?j], Closed)) = Fatal F')"
    by blast
  with b have c: "snd (pool 2 (cbr_worker base_system ?e) ([?j], Closed))
      = Fatal (Exited 1 (error_processing_image ''1.jpg'' ?err))"
    by simp
  from t [THEN conjunct2, THEN conjunct2, THEN conjunct2, THEN conjunct2] have "\<forall>pdf k ks w perr. k \<in> set ks \<and> Extract pdf (k + 1) = Inl perr \<longrightarrow>
          (\<exists>k'\<in>set ks. \<exists>err'. Extract pdf (k' + 1) = Inl err'
              \<and> snd (pdf_pages ?e (pdf :: nat pdf) w ks) = Fatal (Exited 1 (Error err' @ [newline])))" .
  then have "0 \<in> set [0::nat] \<and> Extract ?pdf (0 + 1) = Inl (Err ''unsupported image filter'') \<longrightarrow>
      (\<exists>k'\<in>set [0::nat]. \<exists>err'. Extract ?pdf (k' + 1) = Inl err'
          \<and> snd (pdf_pages ?e ?pdf 1 [0]) = Fatal (Exited 1 (Error err' @ [newline])))"
    by blast
  then have d: "snd (pdf_pages ?e ?pdf 1 [0]) = Fatal (Exited 1 (''unsupported image filter'' @ [newline]))"
    by auto
  from a b c d show ?thesis by simp
qed

text \<open>
  Claim C7. The workers of the directory, zip and rar loaders do as the claim says (see
  above). \<open>loadPdf\<close> does not: on a one-page PDF whose extraction fails, the real run
  ends with exit status 1 and without a task, but what it writes is the error alone; the
  message holds neither the name \<open>page 1\<close> of the page nor the wording that the other
  loaders use.
\<close>

theorem pdf_failure_omits_page_name:
  "load failing_pdf (processor ''book.pdf'' False)
     = Inr (1, [], Fatal (Exited 1 (''unsupported image filter'' @ [newline])))
   \<and> Sprintf_pageFmt (length (Sprintf_d 1)) 1 = ''page 1''
   \<and> \<not> sublist ''page 1'' (''unsupported image filter'' @ [newline])
   \<and> ''unsupported image filter'' @ [newline]
       \<noteq> error_processing_image ''page 1'' (Err ''unsupported image filter'')"
  by code_simp

section \<open>Entries that are not images\<close>

lemma dom_index_names: "dom (index_names names i m) = dom m \<union> set names"
  by (induction names arbitrary: i m) auto

lemma dom_indexedNames: "dom (indexedNames names) = set names"
  by (simp add: indexedNames_def dom_index_names)

lemma file_jobs_append: "file_jobs idx (fs @ gs) = file_jobs idx fs @ file_jobs idx gs"
  by (induction fs) (auto split: option.splits)

lemma file_jobs_skip:
  "idx (Name_r f) = None \<Longrightarrow> file_jobs idx (fs @ f # gs) = file_jobs idx (fs @ gs)"
  by (simp add: file_jobs_append)

lemma cbr_names_skip:
  "\<not> isSupportedImage (Name_r f) \<Longrightarrow> cbr_names (fs @ f # gs) = cbr_names (fs @ gs)"
  by (simp add: cbr_names_def cbr_wanted_def)

lemma cbr_isSolid_skip:
  "\<not> isSupportedImage (Name_r f) \<Longrightarrow> cbr_isSolid (fs @ f # gs) = cbr_isSolid (fs @ gs)"
  by (simp add: cbr_isSolid_def cbr_wanted_def)

lemma set_cbr_names: "set (cbr_names files) = Name_r ` {f \<in> set files. cbr_wanted f}"
  by (auto simp: cbr_names_def)

lemma open_decode_same:
  "image_Decode sys' = image_Decode sys \<Longrightarrow> open_decode sys' e name opened = open_decode sys e name opened"
  by (simp add: open_decode_def split: sum.splits)

lemma dir_worker_WalkDir [simp]:
  "dir_worker (sys\<lparr>filepath_WalkDir := g\<rparr>) e input = dir_worker sys e input"
proof
  fix job :: dir_job
  have "open_decode (sys\<lparr>filepath_WalkDir := g\<rparr>) e (snd job) (os_Open sys (snd job))
      = open_decode sys e (snd job) (os_Open sys (snd job))"
    by (rule open_decode_same) simp
  then show "dir_worker (sys\<lparr>filepath_WalkDir := g\<rparr>) e input job = dir_worker sys e input job"
    by (simp add: dir_worker_def)
qed

lemma cbz_worker_OpenReader [simp]:
  "cbz_worker (sys\<lparr>zip_OpenReader := g\<rparr>) e = cbz_worker sys e"
proof
  fix job :: cbz_job
  have "open_decode (sys\<lparr>zip_OpenReader := g\<rparr>) e (Name_z (snd job)) (Open_z (snd job))
      = open_decode sys e (Name_z (snd job)) (Open_z (snd job))"
    by (rule open_decode_same) simp
  then show "cbz_worker (sys\<lparr>zip_OpenReader := g\<rparr>) e job = cbz_worker sys e job"
    by (simp add: cbz_worker_def split: sum.splits)
qed

lemma cbr_worker_List [simp]:
  "cbr_worker (sys\<lparr>rardecode_List := g\<rparr>) e = cbr_worker sys e"
proof
  fix job :: cbr_job
  have "open_decode (sys\<lparr>rardecode_List := g\<rparr>) e (fst (snd job)) (snd (snd job))
      = open_decode sys e (fst (snd job)) (snd (snd job))"
    by (rule open_decode_same) simp
  then show "cbr_worker (sys\<lparr>rardecode_List := g\<rparr>) e job = cbr_worker sys e job"
    by (simp add: cbr_worker_def split: sum.splits)
qed

lemma loadDir_skip:
  assumes "\<not> isSupportedImage path"
    and "filepath_WalkDir sys (filepath_Clean sys (Input e)) = vs @ (path, False, None) # ws"
  shows "loadDir sys e = loadDir (sys\<lparr>filepath_WalkDir := (\<lambda>root. vs @ ws)\<rparr>) e"
  using assms by (simp add: loadDir_def WalkDir_skip Let_def split: sum.splits)

lemma loadCbz_skip:
  assumes "\<not> isSupportedImage (Name_z z)"
    and "zip_OpenReader sys (Input e) = Inr (zs @ z # zs')"
  shows "loadCbz sys e = loadCbz (sys\<lparr>zip_OpenReader := (\<lambda>p. Inr (zs @ zs'))\<rparr>) e"
  using assms by (simp add: loadCbz_def cbz_images_skip Let_def)

lemma loadCbr_skip:
  assumes "\<not> isSupportedImage (Name_r r)"
    and "rardecode_List sys (Input e) = Inr (rs @ r # rs')"
    and "\<forall>ns m. mset (sortpath_By sys ns m) = mset ns"
  shows "loadCbr sys e = loadCbr (sys\<lparr>rardecode_List := (\<lambda>p. Inr (rs @ rs'))\<rparr>) e"
proof -
  let ?names = "sortpath_By sys (cbr_names (rs @ rs')) (SortPathMode e)"
  from assms(3) have "mset ?names = mset (cbr_names (rs @ rs'))" by blast
  then have "set ?names = set (cbr_names (rs @ rs'))" by (rule mset_eq_setD)
  with assms(1) have "Name_r r \<notin> set ?names"
    by (auto simp: set_cbr_names cbr_wanted_def)
  then have "indexedNames ?names (Name_r r) = None"
    using dom_indexedNames [of ?names] by blast
  then have "file_jobs (indexedNames ?names) (rs @ r # rs') = file_jobs (indexedNames ?names) (rs @ rs')"
    by (rule file_jobs_skip)
  then have "cbr_producer (sys\<lparr>rardecode_List := (\<lambda>p. Inr (rs @ rs'))\<rparr>) e (cbr_isSolid (rs @ rs'))
       (rs @ rs') (indexedNames ?names)
     = cbr_producer sys e (cbr_isSolid (rs @ rs')) (rs @ r # rs') (indexedNames ?names)"
    by (simp add: cbr_producer_def)
  with assms(1,2) show ?thesis
    by (simp add: loadCbr_def cbr_names_skip cbr_isSolid_skip Let_def)
qed

text \<open>
  Claim C5. \<open>isSupportedImage\<close> holds of a path exactly when the path is some prefix, a
  dot, and a suffix without dot or separator that is \<open>jpg\<close>, \<open>jpeg\<close>, \<open>png\<close> or
  \<open>webp\<close> once lowered. A listed entry whose path is not supported does not change what
  the loader returns: the directory walk, the zip listing and the rar listing each load
  exactly as the same listing without that entry, so the entry is neither a page nor an
  error. For rar the index is built from the sorted names, so the sort is assumed to
  permute its input.
\<close>

theorem supported_image_filter:
  "(isSupportedImage path \<longleftrightarrow>
       (\<exists>pre suf. path = pre @ CHR ''.'' # suf \<and> CHR ''.'' \<notin> set suf \<and> CHR ''/'' \<notin> set suf
          \<and> ToLower suf \<in> supported_extensions))
   \<and> (\<not> isSupportedImage path \<longrightarrow>
         (filepath_WalkDir sys (filepath_Clean sys (Input e)) = vs @ (path, False, None) # ws \<longrightarrow>
            loadDir sys e = loadDir (sys\<lparr>filepath_WalkDir := (\<lambda>root. vs @ ws)\<rparr>) e)
       \<and> (zip_OpenReader sys (Input e) = Inr (zs @ z # zs') \<and> Name_z z = path \<longrightarrow>
            loadCbz sys e = loadCbz (sys\<lparr>zip_OpenReader := (\<lambda>p. Inr (zs @ zs'))\<rparr>) e)
       \<and> (rardecode_List sys (Input e) = Inr (rs @ r # rs') \<and> Name_r r = path
            \<and> (\<forall>ns m. mset (sortpath_By sys ns m) = mset ns) \<longrightarrow>
            loadCbr sys e = loadCbr (sys\<lparr>rardecode_List := (\<lambda>p. Inr (rs @ rs'))\<rparr>) e))"
proof (intro conjI impI)
  show "isSupportedImage path \<longleftrightarrow>
       (\<exists>pre suf. path = pre @ CHR ''.'' # suf \<and> CHR ''.'' \<notin> set suf \<and> CHR ''/'' \<notin> set suf
          \<and> ToLower suf \<in> supported_extensions)"
    by (rule isSupportedImage_iff)
next
  assume "\<not> isSupportedImage path"
    and "filepath_WalkDir sys (filepath_Clean sys (Input e)) = vs @ (path, False, None) # ws"
  then show "loadDir sys e = loadDir (sys\<lparr>filepath_WalkDir := (\<lambda>root. vs @ ws)\<rparr>) e"
    by (rule loadDir_skip)
next
  assume n: "\<not> isSupportedImage path"
    and z: "zip_OpenReader sys (Input e) = Inr (zs @ z # zs') \<and> Name_z z = path"
  from n z have "\<not> isSupportedImage (Name_z z)" by simp
  moreover from z have "zip_OpenReader sys (Input e) = Inr (zs @ z # zs')" by simp
  ultimately show "loadCbz sys e = loadCbz (sys\<lparr>zip_OpenReader := (\<lambda>p. Inr (zs @ zs'))\<rparr>) e"
    by (rule loadCbz_skip)
next
  assume n: "\<not> isSupportedImage path"
    and r: "rardecode_List sys (Input e) = Inr (rs @ r # rs') \<and> Name_r r = path
            \<and> (\<forall>ns m. mset (sortpath_By sys ns m) = mset ns)"
  from n r have "\<not> isSupportedImage (Name_r r)" by simp
  moreover from r have "rardecode_List sys (Input e) = Inr (rs @ r # rs')" by simp
  moreover from r have "\<forall>ns m. mset (sortpath_By sys ns m) = mset ns" by simp
  ultimately show "loadCbr sys e = loadCbr (sys\<lparr>rardecode_List := (\<lambda>p. Inr (rs @ rs'))\<rparr>) e"
    by (rule loadCbr_skip)
qed

text \<open>An instance of the statement above, on the example input.\<close>

theorem supported_image_filter_witness:
  "isSupportedImage ''d/1.JPG'' \<and> \<not> isSupportedImage ''d/notes.txt''
   \<and> loadDir shelf (processor ''d'' True)
       = loadDir (shelf\<lparr>filepath_WalkDir := (\<lambda>root. [(''d'', True, None), (''d/1.JPG'', False, None)]
           @ [(''d/2.png'', False, None)])\<rparr>) (processor ''d'' True)
   \<and> loadCbz shelf (processor ''d'' True)
       = loadCbz (shelf\<lparr>zip_OpenReader := (\<lambda>p. Inr ([zip_member ''d/1.JPG'' ''x'']
           @ [zip_member ''d/2.png'' ''yy'']))\<rparr>) (processor ''d'' True)
   \<and> loadCbr shelf (processor ''d'' True)
       = loadCbr (shelf\<lparr>rardecode_List := (\<lambda>p. Inr ([rar_member ''d/1.JPG'' False]
           @ [rar_member ''d/2.png'' False]))\<rparr>) (processor ''d'' True)"
proof -
  let ?e = "processor ''d'' True"
  have jpg: "\<exists>pre suf. ''d/1.JPG'' = pre @ CHR ''.'' # suf \<and> CHR ''.'' \<notin> set suf
      \<and> CHR ''/'' \<notin> set suf \<and> ToLower suf \<in> supported_extensions"
  proof (intro exI conjI)
    show "''d/1.JPG'' = ''d/1'' @ CHR ''.'' # ''JPG''" by simp
    show "CHR ''.'' \<notin> set ''JPG''" "CHR ''/'' \<notin> set ''JPG''" by simp_all
    show "ToLower ''JPG'' \<in> supported_extensions"
      unfolding supported_extensions_def by code_simp
  qed
  have notxt: "\<not> isSupportedImage ''d/notes.txt''" by code_simp
  have w: "filepath_WalkDir shelf (filepath_Clean shelf (Input ?e))
      = [(''d'', True, None), (''d/1.JPG'', False, None)] @ (''d/notes.txt'', False, None)
        # [(''d/2.png'', False, None)]"
    by (simp add: shelf_def)
  have z: "zip_OpenReader shelf (Input ?e)
      = Inr ([zip_member ''d/1.JPG'' ''x''] @ zip_member ''d/notes.txt'' ''n''
             # [zip_member ''d/2.png'' ''yy''])
      \<and> Name_z (zip_member ''d/notes.txt'' ''n'') = ''d/notes.txt''"
    by (simp add: shelf_def zip_member_def)
  have r: "rardecode_List shelf (Input ?e)
      = Inr ([rar_member ''d/1.JPG'' False] @ rar_member ''d/notes.txt'' False
             # [rar_member ''d/2.png'' False])
      \<and> Name_r (rar_member ''d/notes.txt'' False) = ''d/notes.txt''
      \<and> (\<forall>ns m. mset (sortpath_By shelf ns m) = mset ns)"
    by (simp add: shelf_def base_system_def rar_member_def)
  from supported_image_filter [of "''d/1.JPG''"] jpg have a: "isSupportedImage ''d/1.JPG''"
    by blast
  from supported_image_filter [of "''d/notes.txt''" shelf ?e
      "[(''d'', True, None), (''d/1.JPG'', False, None)]" "[(''d/2.png'', False, None)]"
      "[zip_member ''d/1.JPG'' ''x'']" "zip_member ''d/notes.txt'' ''n''" "[zip_member ''d/2.png'' ''yy'']"
      "[rar_member ''d/1.JPG'' False]" "rar_member ''d/notes.txt'' False" "[rar_member ''d/2.png'' False]"]
    notxt w z r a
  show ?thesis by blast
qed

section \<open>PDF pages\<close>



text \<open>
  Claim C6. For a PDF input with \<open>totalImages\<close> pages, the \<open>i\<close>-th task has Id
  \<open>i\<close> and the name \<open>page\<close>, a space, and \<open>i+1\<close> in decimal padded on the left with
  zeros: a string of decimal digits of value \<open>i+1\<close> whose length is exactly the number
  of decimal digits of \<open>totalImages\<close>, that is the \<open>w\<close> with
  \<open>10^(w-1) \<le> totalImages < 10^w\<close>.
\<close>

theorem pdf_page_names:
  assumes "os_Stat sys (Input e) = Inr False" "ToLower (Ext (Input e)) = ''.pdf''"
    and "load sys e = Inr (totalImages, ts, st)"
    and "i < length ts"
  shows "Id_t (ts ! i) = i
    \<and> Name_t (ts ! i) = ''page ''
          @ replicate (length (Sprintf_d totalImages) - length (Sprintf_d (i + 1))) (CHR ''0'')
          @ Sprintf_d (i + 1)
    \<and> (\<exists>s. Name_t (ts ! i) = ''page '' @ s
          \<and> length s = length (Sprintf_d totalImages)
          \<and> set s \<subseteq> set ''0123456789''
          \<and> decimal_value s = i + 1)
    \<and> totalImages < 10 ^ length (Sprintf_d totalImages)
    \<and> 10 ^ (length (Sprintf_d totalImages) - 1) \<le> totalImages"
proof -
  let ?w = "length (Sprintf_d totalImages)"
  let ?s = "replicate (?w - length (Sprintf_d (i + 1))) (CHR ''0'') @ Sprintf_d (i + 1)"
  from assms(1-3) obtain pdf where n: "totalImages = Pages pdf"
    and p: "pdf_pages e pdf ?w [0..<totalImages] = (ts, st)"
    by (auto simp: load_pdf loadPdf_def Let_def split: option.splits)
  from pdf_pages_shape [OF p] have len: "length ts \<le> totalImages"
    and ids: "map Id_t ts = take (length ts) [0..<totalImages]"
    and names: "map Name_t ts = map (\<lambda>i. Sprintf_pageFmt ?w (i + 1)) (take (length ts) [0..<totalImages])"
    by simp_all
  from len assms(4) have i: "i < totalImages" by simp
  from ids len have "map Id_t ts = [0..<length ts]" by (simp add: take_upt)
  then have "map Id_t ts ! i = [0..<length ts] ! i" by simp
  with assms(4) have id: "Id_t (ts ! i) = i" by simp
  from names len have "map Name_t ts = map (\<lambda>i. Sprintf_pageFmt ?w (i + 1)) [0..<length ts]"
    by (simp add: take_upt)
  then have "map Name_t ts ! i = map (\<lambda>i. Sprintf_pageFmt ?w (i + 1)) [0..<length ts] ! i" by simp
  with assms(4) have name: "Name_t (ts ! i) = ''page '' @ ?s"
    by (simp add: Sprintf_pageFmt_def Sprintf_0d_def)
  from i have "i + 1 \<le> totalImages" by simp
  then have le: "length (Sprintf_d (i + 1)) \<le> ?w" by (rule length_Sprintf_d_mono)
  then have l: "length ?s = ?w" by simp
  have d: "set ?s \<subseteq> set ''0123456789''"
    using set_Sprintf_d [of "i + 1"] by auto
  have v: "decimal_value ?s = i + 1"
    by (simp only: decimal_value_zeros decimal_value_Sprintf_d)
  from i have "0 < totalImages" by simp
  then have lo: "10 ^ (?w - 1) \<le> totalImages" by (rule Sprintf_d_lower)
  have up: "totalImages < 10 ^ ?w" by (rule Sprintf_d_upper)
  from id name l d v lo up show ?thesis by blast
qed

text \<open>An instance of the statement above, on the example input.\<close>

theorem pdf_page_names_witness:
  "Name_t (fst (snd (projr (load (pdf_system 100) (processor ''book.pdf'' True)))) ! 6)
     = ''page 007''"
proof -
  let ?sys = "pdf_system 100" and ?e = "processor ''book.pdf'' True"
  let ?ts = "fst (snd (projr (load ?sys ?e)))"
  have 1: "os_Stat ?sys (Input ?e) = Inr False"
    by (simp add: pdf_system_def)
  have 2: "ToLower (Ext (Input ?e)) = ''.pdf''"
    by code_simp
  have 3: "load ?sys ?e = Inr (100, ?ts, Closed)"
    by code_simp
  have 4: "6 < length ?ts"
    by code_simp
  have 5: "''page '' @ replicate (length (Sprintf_d 100) - length (Sprintf_d (6 + 1))) (CHR ''0'')
      @ Sprintf_d (6 + 1) = ''page 007''"
    by code_simp
  from pdf_page_names [OF 1 2 3 4] 5 show ?thesis by simp
qed

section \<open>The output path and the size limit\<close>

lemma Split_file_of: "Split path = (take (length path - length (file_of path)) path, file_of path)"
  by (simp add: Split_def file_of_def Let_def)

lemma length_file_of: "length (file_of path) \<le> length path"
  unfolding file_of_def using length_takeWhile_le [of _ "rev path"] by simp

lemma file_of_append:
  assumes "CHR ''/'' \<notin> set y"
  shows "file_of (x @ y) = file_of x @ y"
proof -
  from assms have "\<forall>c\<in>set (rev y). \<not> IsPathSeparator c"
    by (auto simp: IsPathSeparator_def)
  then have "takeWhile (\<lambda>c. \<not> IsPathSeparator c) (rev y @ rev x)
      = rev y @ takeWhile (\<lambda>c. \<not> IsPathSeparator c) (rev x)"
    by (intro takeWhile_append2) simp
  then show ?thesis by (simp add: file_of_def)
qed

lemma Split_append:
  assumes "CHR ''/'' \<notin> set y"
  shows "Split (x @ y) = (fst (Split x), snd (Split x) @ y)"
  using length_file_of [of x] by (simp add: Split_file_of file_of_append [OF assms])

lemma Split_join: "fst (Split path) @ snd (Split path) = path"
proof -
  have "file_of path = drop (length path - length (file_of path)) path"
  proof -
    have "rev path = takeWhile (\<lambda>c. \<not> IsPathSeparator c) (rev path)
        @ dropWhile (\<lambda>c. \<not> IsPathSeparator c) (rev path)"
      by simp
    then have "path = rev (dropWhile (\<lambda>c. \<not> IsPathSeparator c) (rev path)) @ file_of path"
      unfolding file_of_def by (metis rev_append rev_rev_ident)
    then obtain d where p: "path = d @ file_of path" ..
    then have "length path - length (file_of path) = length d"
      by (metis add_diff_cancel_right' length_append)
    with p show ?thesis by (metis append_eq_conv_conj)
  qed
  then show ?thesis
    by (simp add: Split_file_of) (metis append_take_drop_id)
qed

lemma Ext_suffix: "\<exists>stem. path = stem @ Ext path"
proof (cases "Ext path = []")
  case True
  then show ?thesis by simp
next
  case False
  from Ext_nonempty [OF False] obtain pre suf where
    p: "path = pre @ CHR ''.'' # suf" and d: "CHR ''.'' \<notin> set suf" "CHR ''/'' \<notin> set suf"
    by blast
  from Ext_dot [OF d, of pre] p show ?thesis by auto
qed

lemma Ext_no_separator: "CHR ''/'' \<notin> set (Ext path)"
proof (cases "Ext path = []")
  case True
  then show ?thesis by simp
next
  case False
  from Ext_nonempty [OF False] obtain pre suf where
    p: "path = pre @ CHR ''.'' # suf" and d: "CHR ''.'' \<notin> set suf" "CHR ''/'' \<notin> set suf"
    by blast
  from Ext_dot [OF d, of pre] p d show ?thesis by auto
qed

lemma take_stem: "stem @ Ext path = path \<Longrightarrow> take (length path - length (Ext path)) path = stem"
  by (metis add_diff_cancel_right' append_eq_conv_conj length_append)

lemma Ext_epub_iff: "Ext path = ''.epub'' \<longleftrightarrow> (\<exists>pre. path = pre @ ''.epub'')"
proof
  assume e: "Ext path = ''.epub''"
  from Ext_suffix [of path] obtain stem where "path = stem @ Ext path" ..
  with e show "\<exists>pre. path = pre @ ''.epub''" by auto
next
  assume "\<exists>pre. path = pre @ ''.epub''"
  then obtain pre where "path = pre @ CHR ''.'' # ''epub''" by auto
  moreover have "Ext (pre @ CHR ''.'' # ''epub'') = CHR ''.'' # ''epub''"
    by (rule Ext_dot) simp_all
  ultimately show "Ext path = ''.epub''" by simp
qed

lemma Base_epub: "Base (x @ ''.epub'') = snd (Split x) @ ''.epub''"
proof -
  have d: "rev (dropWhile IsPathSeparator (rev (x @ ''.epub''))) = x @ ''.epub''"
    by (simp add: IsPathSeparator_def)
  have f: "file_of (x @ ''.epub'') = file_of x @ ''.epub''"
    by (rule file_of_append) simp
  show ?thesis
    unfolding Base_def Let_def d using f by (simp add: file_of_def Split_def Let_def)
qed

lemma defaultOutput_stem:
  "\<exists>stem. defaultOutput_of sys input fi_IsDir = stem @ ''.epub''
     \<and> (fi_IsDir \<longrightarrow> stem = filepath_Clean sys input)
     \<and> (\<not> fi_IsDir \<longrightarrow> stem @ Ext (filepath_Clean sys input) = filepath_Clean sys input)"
proof (cases fi_IsDir)
  case True
  then show ?thesis by (simp add: defaultOutput_of_def)
next
  case False
  from Ext_suffix [of "filepath_Clean sys input"] obtain stem where
    s: "filepath_Clean sys input = stem @ Ext (filepath_Clean sys input)" ..
  then have "take (length (filepath_Clean sys input) - length (Ext (filepath_Clean sys input)))
      (filepath_Clean sys input) = stem"
    by (intro take_stem) simp
  with False s show ?thesis by (simp add: defaultOutput_of_def Let_def)
qed

lemma output_of_limit:
  "output_of sys d (opt\<lparr>LimitMb_o := v\<rparr>)
     = (case output_of sys d opt of Inl msg \<Rightarrow> Inl msg | Inr o' \<Rightarrow> Inr (o'\<lparr>LimitMb_o := v\<rparr>))"
  by (simp add: output_of_def split: sum.splits)

lemma title_of_limit: "title_of d (opt\<lparr>LimitMb_o := v\<rparr>) = (title_of d opt)\<lparr>LimitMb_o := v\<rparr>"
  by (simp add: title_of_def)

lemma title_of_fields:
  "LimitMb_o (title_of d opt) = LimitMb_o opt" "Algo_o (title_of d opt) = Algo_o opt"
  "Output_o (title_of d opt) = Output_o opt"
  by (simp_all add: title_of_def)

lemma EpubOptions_of_limit:
  "EpubOptions_of p (opt\<lparr>LimitMb_o := v\<rparr>) = (EpubOptions_of p opt)\<lparr>LimitMb_e := v\<rparr>"
  by (simp add: EpubOptions_of_def)

lemma convert_rejects:
  "0 < LimitMb_o opt \<Longrightarrow> LimitMb_o opt < 20 \<Longrightarrow> \<exists>msg. convert d A W opt = Rejected msg"
  by (simp add: convert_def split: option.splits)

lemma convert_rejects_limit:
  assumes "0 < v" "v < 20" "convert d A W (opt\<lparr>LimitMb_o := 0\<rparr>) = Converted eo r"
  shows "convert d A W (opt\<lparr>LimitMb_o := v\<rparr>) = Rejected (''LimitMb should be 0 or >= 20'' @ [newline])"
  using assms by (simp add: convert_def split: option.splits)

lemma convert_accepts:
  assumes "v = 0 \<or> 20 \<le> v" "w = 0 \<or> 20 \<le> w"
  shows "convert d A W (opt\<lparr>LimitMb_o := v\<rparr>) = with_limit W v (convert d A W (opt\<lparr>LimitMb_o := w\<rparr>))"
proof (cases "ProfilesIdx (Profile_o opt)")
  case None
  then show ?thesis by (simp add: convert_def with_limit_def)
next
  case (Some i)
  from assms have v: "\<not> (0 < v \<and> v < 20)" and w: "\<not> (0 < w \<and> w < 20)" by auto
  show ?thesis
  proof (cases "Algo_o opt \<in> set A")
    case False
    with Some v w show ?thesis
      by (simp add: convert_def with_limit_def title_of_limit title_of_fields Let_def)
  next
    case True
    with Some v w show ?thesis
      by (simp add: convert_def with_limit_def title_of_limit title_of_fields Let_def
            EpubOptions_of_limit)
  qed
qed

lemma convert_not_limit_message:
  assumes "LimitMb_o opt = 0 \<or> 20 \<le> LimitMb_o opt"
  shows "convert d A W opt \<noteq> Rejected (''LimitMb should be 0 or >= 20'' @ [newline])"
proof -
  from assms have "\<not> (0 < LimitMb_o opt \<and> LimitMb_o opt < 20)" by auto
  then show ?thesis
    by (auto simp: convert_def Let_def split: option.splits)
qed

lemma limit_output_comm:
  "opt\<lparr>LimitMb_o := v, Output_o := d\<rparr> = opt\<lparr>Output_o := d, LimitMb_o := v\<rparr>"
  by (cases opt) simp

lemma main_cases:
  obtains (early) msg where "\<And>v. main sys A W (opt\<lparr>LimitMb_o := v\<rparr>) = Rejected msg"
  | (late) d o' where "\<And>v. main sys A W (opt\<lparr>LimitMb_o := v\<rparr>) = convert d A W (o'\<lparr>LimitMb_o := v\<rparr>)"
proof (cases "Input_o opt = []")
  case True
  then have "\<And>v. main sys A W (opt\<lparr>LimitMb_o := v\<rparr>) = Rejected (''Missing input or output!'' @ [newline])"
    by (simp add: main_def)
  then show ?thesis by (rule early)
next
  case False
  show ?thesis
  proof (cases "os_Stat sys (Input_o opt)")
    case (Inl err)
    with False have "\<And>v. main sys A W (opt\<lparr>LimitMb_o := v\<rparr>) = Rejected (Error err @ [newline])"
      by (simp add: main_def)
    then show ?thesis by (rule early)
  next
    case (Inr fi)
    let ?d = "defaultOutput_of sys (Input_o opt) fi"
    let ?o = "if Output_o opt = [] then opt\<lparr>Output_o := ?d\<rparr> else opt"
    have m: "\<And>v. main sys A W (opt\<lparr>LimitMb_o := v\<rparr>)
        = (case output_of sys ?d (?o\<lparr>LimitMb_o := v\<rparr>) of
             Inl msg \<Rightarrow> Rejected msg | Inr o' \<Rightarrow> convert ?d A W o')"
      using False Inr by (simp add: main_def Let_def limit_output_comm)
    show ?thesis
    proof (cases "output_of sys ?d ?o")
      case (Inl msg)
      with m have "\<And>v. main sys A W (opt\<lparr>LimitMb_o := v\<rparr>) = Rejected msg"
        by (simp add: output_of_limit)
      then show ?thesis by (rule early)
    next
      case r: (Inr o')
      with m have "\<And>v. main sys A W (opt\<lparr>LimitMb_o := v\<rparr>) = convert ?d A W (o'\<lparr>LimitMb_o := v\<rparr>)"
        by (simp add: output_of_limit)
      then show ?thesis by (rule late)
    qed
  qed
qed

lemma output_of_epub:
  "(\<exists>pre. Output_o opt = pre @ ''.epub'') \<Longrightarrow> output_of sys d opt = Inr opt"
  using Ext_epub_iff [of "Output_o opt"] by (simp add: output_of_def)

lemma output_of_directory:
  assumes "\<not> (\<exists>pre. Output_o opt = pre @ ''.epub'')" "os_Stat sys (Output_o opt) = Inr True"
  shows "output_of sys d opt = Inr (opt\<lparr>Output_o := filepath_Join sys (Output_o opt) (Base d)\<rparr>)"
proof -
  from assms(1) have "Ext (Output_o opt) \<noteq> ''.epub''"
    using Ext_epub_iff [of "Output_o opt"] by simp
  with assms(2) show ?thesis by (simp add: output_of_def)
qed

lemma beside_input:
  assumes "fi \<longrightarrow> stem = clean" "\<not> fi \<longrightarrow> stem @ Ext clean = clean"
  shows "stem = fst (Split clean) @ snd (Split stem)"
proof (cases fi)
  case True
  with assms show ?thesis by (simp add: Split_join)
next
  case False
  with assms have c: "clean = stem @ Ext clean" by simp
  have "Split (stem @ Ext clean) = (fst (Split stem), snd (Split stem) @ Ext clean)"
    by (rule Split_append) (rule Ext_no_separator)
  with c have "fst (Split clean) = fst (Split stem)" by (metis fst_conv)
  then show ?thesis by (simp add: Split_join)
qed

lemma main_reaches_convert:
  assumes "Input_o opt \<noteq> []" "os_Stat sys (Input_o opt) = Inr fi"
  shows "(Output_o opt = [] \<longrightarrow>
            main sys A W opt = convert (defaultOutput_of sys (Input_o opt) fi) A W
                (opt\<lparr>Output_o := defaultOutput_of sys (Input_o opt) fi\<rparr>))
     \<and> (Output_o opt \<noteq> [] \<and> (\<exists>pre. Output_o opt = pre @ ''.epub'') \<longrightarrow>
            main sys A W opt = convert (defaultOutput_of sys (Input_o opt) fi) A W opt)
     \<and> (Output_o opt \<noteq> [] \<and> \<not> (\<exists>pre. Output_o opt = pre @ ''.epub'')
          \<and> os_Stat sys (Output_o opt) = Inr True \<longrightarrow>
            main sys A W opt = convert (defaultOutput_of sys (Input_o opt) fi) A W
                (opt\<lparr>Output_o := filepath_Join sys (Output_o opt)
                                    (Base (defaultOutput_of sys (Input_o opt) fi))\<rparr>))"
proof -
  let ?d = "defaultOutput_of sys (Input_o opt) fi"
  let ?o = "if Output_o opt = [] then opt\<lparr>Output_o := ?d\<rparr> else opt"
  have m: "main sys A W opt
      = (case output_of sys ?d ?o of Inl msg \<Rightarrow> Rejected msg | Inr o' \<Rightarrow> convert ?d A W o')"
    using assms by (simp add: main_def Let_def)
  from defaultOutput_stem [of sys "Input_o opt" fi] obtain stem where d: "?d = stem @ ''.epub''"
    by blast
  have 1: "main sys A W opt = convert ?d A W (opt\<lparr>Output_o := ?d\<rparr>)" if "Output_o opt = []"
  proof -
    have "output_of sys ?d (opt\<lparr>Output_o := ?d\<rparr>) = Inr (opt\<lparr>Output_o := ?d\<rparr>)"
      by (rule output_of_epub) (simp add: d)
    with m that show ?thesis by simp
  qed
  have 2: "main sys A W opt = convert ?d A W opt"
    if "Output_o opt \<noteq> []" "\<exists>pre. Output_o opt = pre @ ''.epub''"
  proof -
    from that(2) have "output_of sys ?d opt = Inr opt" by (rule output_of_epub)
    with m that(1) show ?thesis by simp
  qed
  have 3: "main sys A W opt
      = convert ?d A W (opt\<lparr>Output_o := filepath_Join sys (Output_o opt) (Base ?d)\<rparr>)"
    if "Output_o opt \<noteq> []" "\<not> (\<exists>pre. Output_o opt = pre @ ''.epub'')"
       "os_Stat sys (Output_o opt) = Inr True"
  proof -
    from output_of_directory [OF that(2,3)]
    have "output_of sys ?d opt
        = Inr (opt\<lparr>Output_o := filepath_Join sys (Output_o opt) (Base ?d)\<rparr>)" .
    with m that(1) show ?thesis by simp
  qed
  from 1 2 3 show ?thesis by blast
qed

lemma main_refuses_output:
  assumes "Input_o opt \<noteq> []" "os_Stat sys (Input_o opt) = Inr fi"
    "Output_o opt \<noteq> []" "\<not> (\<exists>pre. Output_o opt = pre @ ''.epub'')"
  shows "(os_Stat sys (Output_o opt) = Inr False \<longrightarrow>
            main sys A W opt = Rejected (''output must be an existing dir or end with .epub'' @ [newline]))
     \<and> (\<forall>err. os_Stat sys (Output_o opt) = Inl err \<longrightarrow>
            main sys A W opt = Rejected (Error err @ [newline]))"
proof -
  from assms(4) have "Ext (Output_o opt) \<noteq> ''.epub''"
    using Ext_epub_iff [of "Output_o opt"] by simp
  with assms(1-3) show ?thesis
    by (simp add: main_def Let_def output_of_def)
qed

lemma convert_converts:
  assumes "ProfilesIdx (Profile_o opt) = Some i" "\<not> (0 < LimitMb_o opt \<and> LimitMb_o opt < 20)"
    "Algo_o opt \<in> set A"
  shows "\<exists>eo. convert d A W opt = Converted eo (W eo)
      \<and> LimitMb_e eo = LimitMb_o opt \<and> Output_e eo = Output_o opt"
  using assms
  by (simp add: convert_def Let_def title_of_fields EpubOptions_of_def)

lemma convert_limit_message:
  assumes "ProfilesIdx (Profile_o opt) = Some i" "0 < LimitMb_o opt" "LimitMb_o opt < 20"
  shows "convert d A W opt = Rejected (''LimitMb should be 0 or >= 20'' @ [newline])"
  using assms by (simp add: convert_def Let_def)

lemma main_checked:
  assumes "Input_o opt \<noteq> []" "os_Stat sys (Input_o opt) = Inr fi"
    "Output_o opt = [] \<or> (\<exists>pre. Output_o opt = pre @ ''.epub'')
       \<or> os_Stat sys (Output_o opt) = Inr True"
  shows "\<exists>out. main sys A W opt
      = convert (defaultOutput_of sys (Input_o opt) fi) A W (opt\<lparr>Output_o := out\<rparr>)"
proof -
  note r = main_reaches_convert [OF assms(1,2), of A W]
  consider "Output_o opt = []"
    | "Output_o opt \<noteq> []" "\<exists>pre. Output_o opt = pre @ ''.epub''"
    | "Output_o opt \<noteq> []" "\<not> (\<exists>pre. Output_o opt = pre @ ''.epub'')"
      "os_Stat sys (Output_o opt) = Inr True"
    using assms(3) by blast
  then show ?thesis
  proof cases
    case 1
    with r [THEN conjunct1] show ?thesis by blast
  next
    case 2
    with r [THEN conjunct2, THEN conjunct1]
    have "main sys A W opt = convert (defaultOutput_of sys (Input_o opt) fi) A W opt" by blast
    then have "main sys A W opt
        = convert (defaultOutput_of sys (Input_o opt) fi) A W (opt\<lparr>Output_o := Output_o opt\<rparr>)"
      by simp
    then show ?thesis ..
  next
    case 3
    with r [THEN conjunct2, THEN conjunct2] show ?thesis by blast
  qed
qed

text \<open>
  Claim C8. A size limit strictly between 0 and 20 is rejected: whatever the other
  options, \<open>main\<close> exits with status 1 without calling the converter. When the input
  exists, the output option is empty, ends in \<open>.epub\<close> or names an existing directory,
  and the profile exists, the message written is the one about the limit. A limit of 0 or
  of at least 20 is accepted: under the same conditions \<open>main\<close> passes the check of the
  limit and goes on to the check of the algorithm; it calls the converter with the given
  limit when the algorithm exists, and otherwise the message is the one about the
  algorithm. In every case \<open>main\<close> does with such a limit what it does with limit 0, the
  converter receiving the given limit. The limit 0 is printed as \<open>nolimit\<close>.
\<close>

theorem limitmb_validation:
  "(0 < v \<and> v < 20 \<longrightarrow>
      (\<exists>msg. main sys A W (opt\<lparr>LimitMb_o := v\<rparr>) = Rejected msg)
      \<and> exit_status (main sys A W (opt\<lparr>LimitMb_o := v\<rparr>)) = 1
      \<and> (\<forall>eo r. main sys A W (opt\<lparr>LimitMb_o := 0\<rparr>) = Converted eo r \<longrightarrow>
            main sys A W (opt\<lparr>LimitMb_o := v\<rparr>)
              = Rejected (''LimitMb should be 0 or >= 20'' @ [newline])))
   \<and> (v = 0 \<or> 20 \<le> v \<longrightarrow>
        main sys A W (opt\<lparr>LimitMb_o := v\<rparr>)
          = with_limit W v (main sys A W (opt\<lparr>LimitMb_o := 0\<rparr>)))
   \<and> (Input_o opt \<noteq> [] \<and> os_Stat sys (Input_o opt) = Inr fi
        \<and> (Output_o opt = [] \<or> (\<exists>pre. Output_o opt = pre @ ''.epub'')
             \<or> os_Stat sys (Output_o opt) = Inr True)
        \<and> ProfilesIdx (Profile_o opt) = Some i \<longrightarrow>
          (0 < v \<and> v < 20 \<longrightarrow>
             main sys A W (opt\<lparr>LimitMb_o := v\<rparr>)
               = Rejected (''LimitMb should be 0 or >= 20'' @ [newline]))
          \<and> ((v = 0 \<or> 20 \<le> v) \<and> Algo_o opt \<in> set A \<longrightarrow>
               (\<exists>eo. main sys A W (opt\<lparr>LimitMb_o := v\<rparr>) = Converted eo (W eo)
                  \<and> LimitMb_e eo = v))
          \<and> ((v = 0 \<or> 20 \<le> v) \<and> Algo_o opt \<notin> set A \<longrightarrow>
               main sys A W (opt\<lparr>LimitMb_o := v\<rparr>) = Rejected (''algo doesn't exists'' @ [newline])))
   \<and> String_limitmb (opt\<lparr>LimitMb_o := 0\<rparr>) = ''nolimit''"
proof -
  have s: "String_limitmb (opt\<lparr>LimitMb_o := 0\<rparr>) = ''nolimit''"
    by (simp add: String_limitmb_def)
  have old: "(0 < v \<and> v < 20 \<longrightarrow>
      (\<exists>msg. main sys A W (opt\<lparr>LimitMb_o := v\<rparr>) = Rejected msg)
      \<and> exit_status (main sys A W (opt\<lparr>LimitMb_o := v\<rparr>)) = 1
      \<and> (\<forall>eo r. main sys A W (opt\<lparr>LimitMb_o := 0\<rparr>) = Converted eo r \<longrightarrow>
            main sys A W (opt\<lparr>LimitMb_o := v\<rparr>)
              = Rejected (''LimitMb should be 0 or >= 20'' @ [newline])))
   \<and> (v = 0 \<or> 20 \<le> v \<longrightarrow>
        main sys A W (opt\<lparr>LimitMb_o := v\<rparr>)
          = with_limit W v (main sys A W (opt\<lparr>LimitMb_o := 0\<rparr>)))"
  proof (cases rule: main_cases [of sys A W opt])
    case (early msg)
    then show ?thesis by (simp add: with_limit_def)
  next
    case (late d o')
    have a: "0 < v \<and> v < 20 \<longrightarrow> (\<exists>msg. convert d A W (o'\<lparr>LimitMb_o := v\<rparr>) = Rejected msg)"
      using convert_rejects [of "o'\<lparr>LimitMb_o := v\<rparr>" d A W] by simp
    have b: "0 < v \<and> v < 20 \<longrightarrow> (\<forall>eo r. convert d A W (o'\<lparr>LimitMb_o := 0\<rparr>) = Converted eo r \<longrightarrow>
        convert d A W (o'\<lparr>LimitMb_o := v\<rparr>) = Rejected (''LimitMb should be 0 or >= 20'' @ [newline]))"
      using convert_rejects_limit [of v d A W o'] by blast
    have c: "v = 0 \<or> 20 \<le> v \<longrightarrow> convert d A W (o'\<lparr>LimitMb_o := v\<rparr>)
        = with_limit W v (convert d A W (o'\<lparr>LimitMb_o := 0\<rparr>))"
      using convert_accepts [of v 0 d A W o'] by simp
    from a have a': "0 < v \<and> v < 20 \<longrightarrow> exit_status (convert d A W (o'\<lparr>LimitMb_o := v\<rparr>)) = 1"
      by auto
    from a a' b c show ?thesis
      unfolding late by blast
  qed
  have new: "(0 < v \<and> v < 20 \<longrightarrow>
             main sys A W (opt\<lparr>LimitMb_o := v\<rparr>)
               = Rejected (''LimitMb should be 0 or >= 20'' @ [newline]))
          \<and> ((v = 0 \<or> 20 \<le> v) \<and> Algo_o opt \<in> set A \<longrightarrow>
               (\<exists>eo. main sys A W (opt\<lparr>LimitMb_o := v\<rparr>) = Converted eo (W eo)
                  \<and> LimitMb_e eo = v))
          \<and> ((v = 0 \<or> 20 \<le> v) \<and> Algo_o opt \<notin> set A \<longrightarrow>
               main sys A W (opt\<lparr>LimitMb_o := v\<rparr>) = Rejected (''algo doesn't exists'' @ [newline]))"
    if h: "Input_o opt \<noteq> []" "os_Stat sys (Input_o opt) = Inr fi"
        "Output_o opt = [] \<or> (\<exists>pre. Output_o opt = pre @ ''.epub'')
             \<or> os_Stat sys (Output_o opt) = Inr True"
        "ProfilesIdx (Profile_o opt) = Some i"
  proof -
    let ?d = "defaultOutput_of sys (Input_o opt) fi"
    from main_checked [of "opt\<lparr>LimitMb_o := v\<rparr>" sys fi A W] h(1-3) obtain out where
      m: "main sys A W (opt\<lparr>LimitMb_o := v\<rparr>) = convert ?d A W (opt\<lparr>LimitMb_o := v, Output_o := out\<rparr>)"
      by auto
    let ?o = "opt\<lparr>LimitMb_o := v, Output_o := out\<rparr>"
    have p: "ProfilesIdx (Profile_o ?o) = Some i" using h(4) by simp
    have 1: "convert ?d A W ?o = Rejected (''LimitMb should be 0 or >= 20'' @ [newline])"
      if "0 < v \<and> v < 20"
      using that by (intro convert_limit_message [OF p]) simp_all
    have 2: "\<exists>eo. convert ?d A W ?o = Converted eo (W eo) \<and> LimitMb_e eo = v"
      if "(v = 0 \<or> 20 \<le> v) \<and> Algo_o opt \<in> set A"
    proof -
      from that have "\<not> (0 < LimitMb_o ?o \<and> LimitMb_o ?o < 20)" "Algo_o ?o \<in> set A" by auto
      from convert_converts [OF p this, of ?d W] show ?thesis by auto
    qed
    have 3: "convert ?d A W ?o = Rejected (''algo doesn't exists'' @ [newline])"
      if "(v = 0 \<or> 20 \<le> v) \<and> Algo_o opt \<notin> set A"
    proof -
      from that have "\<not> (0 < v \<and> v < 20)" by auto
      with that p show ?thesis
        by (simp add: convert_def Let_def title_of_fields)
    qed
    from 1 2 3 show ?thesis unfolding m by blast
  qed
  from old new s show ?thesis by blast
qed

text \<open>An instance of the statement above, on the example input.\<close>

theorem limitmb_validation_witness:
  "main desk [''default''] (\<lambda>eo. None) (flags ''out'' 10)
     = Rejected (''LimitMb should be 0 or >= 20'' @ [newline])
   \<and> (\<exists>eo. main desk [''default''] (\<lambda>eo. None) (flags ''out'' 20) = Converted eo None
         \<and> LimitMb_e eo = 20)
   \<and> (\<exists>eo. main desk [''default''] (\<lambda>eo. None) (flags ''out'' 0) = Converted eo None
         \<and> LimitMb_e eo = 0)
   \<and> main desk [''default''] (\<lambda>eo. None) (flags ''out'' 20)
     = Converted (converted ''out/comic.epub'' 20) None
   \<and> main desk [''default''] (\<lambda>eo. None) (flags ''out'' 0)
     = Converted (converted ''out/comic.epub'' 0) None"
proof -
  let ?A = "[''default'']" and ?W = "\<lambda>eo :: EpubOptions. None :: error option"
  let ?opt = "flags ''out'' 0"
  have u: "\<And>v. ?opt\<lparr>LimitMb_o := v\<rparr> = flags ''out'' v"
    by (simp add: flags_def)
  have i: "Input_o ?opt \<noteq> []" by (simp add: flags_def)
  have st: "os_Stat desk (Input_o ?opt) = Inr False" by (simp add: flags_def desk_def)
  have ou: "Output_o ?opt = [] \<or> (\<exists>pre. Output_o ?opt = pre @ ''.epub'')
             \<or> os_Stat desk (Output_o ?opt) = Inr True"
    by (simp add: flags_def desk_def)
  have p: "ProfilesIdx (Profile_o ?opt) = Some 10" by code_simp
  have al: "Algo_o ?opt \<in> set ?A" by (simp add: flags_def)
  have h: "Input_o ?opt \<noteq> [] \<and> os_Stat desk (Input_o ?opt) = Inr False
        \<and> (Output_o ?opt = [] \<or> (\<exists>pre. Output_o ?opt = pre @ ''.epub'')
             \<or> os_Stat desk (Output_o ?opt) = Inr True)
        \<and> ProfilesIdx (Profile_o ?opt) = Some 10"
    using i st ou p by (intro conjI)
  note t = limitmb_validation [of _ desk ?A ?W ?opt False 10, unfolded u]
  from t [of 10, THEN conjunct2, THEN conjunct2, THEN conjunct1, THEN mp, OF h, THEN conjunct1]
  have a: "main desk ?A ?W (flags ''out'' 10) = Rejected (''LimitMb should be 0 or >= 20'' @ [newline])"
    by simp
  from t [of 20, THEN conjunct2, THEN conjunct2, THEN conjunct1, THEN mp, OF h,
          THEN conjunct2, THEN conjunct1] al
  have b: "\<exists>eo. main desk ?A ?W (flags ''out'' 20) = Converted eo None \<and> LimitMb_e eo = 20"
    by simp
  from t [of 0, THEN conjunct2, THEN conjunct2, THEN conjunct1, THEN mp, OF h,
          THEN conjunct2, THEN conjunct1] al
  have c: "\<exists>eo. main desk ?A ?W (flags ''out'' 0) = Converted eo None \<and> LimitMb_e eo = 0"
    by simp
  have z: "main desk ?A ?W (flags ''out'' 0) = Converted (converted ''out/comic.epub'' 0) None"
    by code_simp
  from t [of 20, THEN conjunct2, THEN conjunct1] z
  have d: "main desk ?A ?W (flags ''out'' 20) = Converted (converted ''out/comic.epub'' 20) None"
    by (simp add: with_limit_def converted_def)
  from a b c d z show ?thesis by (intro conjI)
qed

text \<open>
  Claim C9. Let \<open>stem\<close> be the cleaned input, without its extension when the input is a
  file. Suppose that the input exists and that the checks which follow the output path
  pass: the profile exists, the size limit is not strictly between 0 and 20, and the
  algorithm exists. If the output option is not empty, does not end in \<open>.epub\<close> and
  names an existing directory, \<open>main\<close> calls the converter, and the output handed to it
  is that directory joined with the last element of \<open>stem\<close> followed by \<open>.epub\<close>. If
  the output option is empty, \<open>main\<close> calls the converter with the output \<open>stem\<close>
  followed by \<open>.epub\<close>, which lies in the directory of the input. An output option that
  does not end in \<open>.epub\<close> and names an existing file is rejected.
\<close>

theorem default_output_path:
  assumes "Input_o opt \<noteq> []" "os_Stat sys (Input_o opt) = Inr fi"
    and "ProfilesIdx (Profile_o opt) = Some i"
    and "\<not> (0 < LimitMb_o opt \<and> LimitMb_o opt < 20)"
    and "Algo_o opt \<in> set A"
  shows "\<exists>stem. (fi \<longrightarrow> stem = filepath_Clean sys (Input_o opt))
     \<and> (\<not> fi \<longrightarrow> stem @ Ext (filepath_Clean sys (Input_o opt)) = filepath_Clean sys (Input_o opt))
     \<and> (Output_o opt \<noteq> [] \<and> \<not> (\<exists>pre. Output_o opt = pre @ ''.epub'')
          \<and> os_Stat sys (Output_o opt) = Inr True \<longrightarrow>
          (\<exists>eo. main sys A W opt = Converted eo (W eo)
             \<and> Output_e eo = filepath_Join sys (Output_o opt) (snd (Split stem) @ ''.epub'')))
     \<and> (Output_o opt = [] \<longrightarrow>
          (\<exists>eo. main sys A W opt = Converted eo (W eo)
             \<and> Output_e eo = stem @ ''.epub''
             \<and> Output_e eo
                 = fst (Split (filepath_Clean sys (Input_o opt))) @ snd (Split stem) @ ''.epub''))
     \<and> (Output_o opt \<noteq> [] \<and> \<not> (\<exists>pre. Output_o opt = pre @ ''.epub'')
          \<and> os_Stat sys (Output_o opt) = Inr False \<longrightarrow>
          main sys A W opt
            = Rejected (''output must be an existing dir or end with .epub'' @ [newline]))"
proof -
  let ?clean = "filepath_Clean sys (Input_o opt)"
  let ?d = "defaultOutput_of sys (Input_o opt) fi"
  from defaultOutput_stem [of sys "Input_o opt" fi] obtain stem where
    d: "?d = stem @ ''.epub''" and s1: "fi \<longrightarrow> stem = ?clean"
    and s2: "\<not> fi \<longrightarrow> stem @ Ext ?clean = ?clean"
    by blast
  note r = main_reaches_convert [OF assms(1,2), of A W]
  have dirc: "\<exists>eo. main sys A W opt = Converted eo (W eo)
      \<and> Output_e eo = filepath_Join sys (Output_o opt) (snd (Split stem) @ ''.epub'')"
    if h: "Output_o opt \<noteq> [] \<and> \<not> (\<exists>pre. Output_o opt = pre @ ''.epub'')
          \<and> os_Stat sys (Output_o opt) = Inr True"
  proof -
    let ?o = "opt\<lparr>Output_o := filepath_Join sys (Output_o opt) (Base ?d)\<rparr>"
    from r [THEN conjunct2, THEN conjunct2] h
    have m: "main sys A W opt = convert ?d A W ?o" by (rule mp)
    have "ProfilesIdx (Profile_o ?o) = Some i" "\<not> (0 < LimitMb_o ?o \<and> LimitMb_o ?o < 20)"
      "Algo_o ?o \<in> set A"
      using assms(3-5) by simp_all
    from convert_converts [OF this, of ?d W] obtain eo where
      "convert ?d A W ?o = Converted eo (W eo)" "Output_e eo = Output_o ?o"
      by blast
    with m d show ?thesis by (simp add: Base_epub)
  qed
  have dflt: "\<exists>eo. main sys A W opt = Converted eo (W eo)
      \<and> Output_e eo = stem @ ''.epub''
      \<and> Output_e eo = fst (Split ?clean) @ snd (Split stem) @ ''.epub''"
    if h: "Output_o opt = []"
  proof -
    let ?o = "opt\<lparr>Output_o := ?d\<rparr>"
    from r [THEN conjunct1] h
    have m: "main sys A W opt = convert ?d A W ?o" by (rule mp)
    have "ProfilesIdx (Profile_o ?o) = Some i" "\<not> (0 < LimitMb_o ?o \<and> LimitMb_o ?o < 20)"
      "Algo_o ?o \<in> set A"
      using assms(3-5) by simp_all
    from convert_converts [OF this, of ?d W] obtain eo where
      c: "convert ?d A W ?o = Converted eo (W eo)" and e: "Output_e eo = Output_o ?o"
      by blast
    from e d have 1: "Output_e eo = stem @ ''.epub''" by simp
    from beside_input [OF s1 s2]
    have "stem @ ''.epub'' = (fst (Split ?clean) @ snd (Split stem)) @ ''.epub''"
      by simp
    with 1 have 2: "Output_e eo = fst (Split ?clean) @ snd (Split stem) @ ''.epub''" by simp
    from m c 1 2 show ?thesis by auto
  qed
  have nodir: "main sys A W opt
        = Rejected (''output must be an existing dir or end with .epub'' @ [newline])"
    if h: "Output_o opt \<noteq> [] \<and> \<not> (\<exists>pre. Output_o opt = pre @ ''.epub'')
          \<and> os_Stat sys (Output_o opt) = Inr False"
  proof -
    from h have "Output_o opt \<noteq> []" "\<not> (\<exists>pre. Output_o opt = pre @ ''.epub'')"
      "os_Stat sys (Output_o opt) = Inr False" by simp_all
    from main_refuses_output [OF assms(1,2) this(1,2), of A W, THEN conjunct1] this(3)
    show ?thesis by (rule mp)
  qed
  from s1 s2 dirc dflt nodir show ?thesis by blast
qed

text \<open>An instance of the statement above, on the example input.\<close>

theorem default_output_path_witness:
  "(\<exists>eo. main desk [''default''] (\<lambda>eo. None) (flags ''out'' 0) = Converted eo None
       \<and> Output_e eo = ''out/comic.epub'')
   \<and> (\<exists>eo. main desk [''default''] (\<lambda>eo. None) (flags [] 0) = Converted eo None
       \<and> Output_e eo = ''in/comic.epub'')
   \<and> main desk [''default''] (\<lambda>eo. None) (flags ''in/comic.cbz'' 0)
       = Rejected (''output must be an existing dir or end with .epub'' @ [newline])"
proof -
  let ?A = "[''default'']" and ?W = "\<lambda>eo :: EpubOptions. None :: error option"
  let ?in = "''in/comic.cbz''"
  have c: "filepath_Clean desk ?in = ?in"
    by (simp add: desk_def base_system_def)
  have j: "\<And>p q. filepath_Join desk p q = p @ ''/'' @ q"
    by (simp add: desk_def base_system_def)
  have x: "Ext ?in = ''.cbz''" by code_simp
  have s: "stem = ''in/comic''" if "stem @ ''.cbz'' = ?in" for stem
  proof -
    from that have "stem @ ''.cbz'' = ''in/comic'' @ ''.cbz''" by simp
    then show ?thesis by (simp only: append_same_eq)
  qed
  have sp: "snd (Split ''in/comic'') = ''comic''" "fst (Split ?in) = ''in/''"
    by code_simp+
  have st: "os_Stat desk ?in = Inr False" "os_Stat desk ''out'' = Inr True"
    by (simp_all add: desk_def)
  have f: "Input_o (flags out 0) = ?in" "Output_o (flags out 0) = out"
    "ProfilesIdx (Profile_o (flags out 0)) = ProfilesIdx ''KS''"
    "LimitMb_o (flags out 0) = 0" "Algo_o (flags out 0) = ''default''" for out
    by (simp_all add: flags_def)
  have p: "ProfilesIdx ''KS'' = Some 10" by code_simp
  have h: "Input_o (flags out 0) \<noteq> []" "os_Stat desk (Input_o (flags out 0)) = Inr False"
    "ProfilesIdx (Profile_o (flags out 0)) = Some 10"
    "\<not> (0 < LimitMb_o (flags out 0) \<and> LimitMb_o (flags out 0) < 20)"
    "Algo_o (flags out 0) \<in> set ?A" for out
    by (simp_all add: f st p)
  have o: "\<not> (\<exists>pre. ''out'' = pre @ ''.epub'')" "\<not> (\<exists>pre. ?in = pre @ ''.epub'')"
    by simp_all
  from default_output_path [OF h, of "''out''" ?W] obtain stem where
    1: "\<not> False \<longrightarrow> stem @ Ext (filepath_Clean desk ?in) = filepath_Clean desk ?in"
    and 2: "''out'' \<noteq> [] \<and> \<not> (\<exists>pre. ''out'' = pre @ ''.epub'')
          \<and> os_Stat desk ''out'' = Inr True \<longrightarrow>
          (\<exists>eo. main desk ?A ?W (flags ''out'' 0) = Converted eo None
             \<and> Output_e eo = filepath_Join desk ''out'' (snd (Split stem) @ ''.epub''))"
    unfolding f by (elim exE conjE)
  from 1 c x have "stem = ''in/comic''" by (simp add: s)
  with 2 o st sp j have a: "\<exists>eo. main desk ?A ?W (flags ''out'' 0) = Converted eo None
       \<and> Output_e eo = ''out/comic.epub''"
    by simp
  from default_output_path [OF h, of "[]" ?W] obtain stem' where
    3: "\<not> False \<longrightarrow> stem' @ Ext (filepath_Clean desk ?in) = filepath_Clean desk ?in"
    and 4: "[] = ([] :: string) \<longrightarrow>
          (\<exists>eo. main desk ?A ?W (flags [] 0) = Converted eo None
             \<and> Output_e eo = stem' @ ''.epub''
             \<and> Output_e eo
                 = fst (Split (filepath_Clean desk ?in)) @ snd (Split stem') @ ''.epub'')"
    unfolding f by (elim exE conjE)
  from 3 c x have "stem' = ''in/comic''" by (simp add: s)
  with 4 have b: "\<exists>eo. main desk ?A ?W (flags [] 0) = Converted eo None
       \<and> Output_e eo = ''in/comic.epub''"
    by auto
  from default_output_path [OF h, of ?in ?W] obtain stem'' where
    5: "?in \<noteq> [] \<and> \<not> (\<exists>pre. ?in = pre @ ''.epub'')
          \<and> os_Stat desk ?in = Inr False \<longrightarrow>
          main desk ?A ?W (flags ?in 0)
            = Rejected (''output must be an existing dir or end with .epub'' @ [newline])"
    unfolding f by (elim exE conjE)
  with o st have d: "main desk ?A ?W (flags ?in 0)
            = Rejected (''output must be an existing dir or end with .epub'' @ [newline])"
    by simp
  from a b d show ?thesis by (intro conjI)
qed

section \<open>Inputs without pages\<close>

text \<open>
  The directory, zip and rar loaders return the sentinel when nothing qualifies; the PDF
  loader has no such check.
\<close>

lemma loadDir_no_images:
  "WalkDir (filepath_WalkDir sys (filepath_Clean sys (Input e))) [] = Inr [] \<Longrightarrow>
   loadDir sys e = Inl errNoImagesFound"
  by (simp add: loadDir_def)

lemma loadCbz_no_images:
  "zip_OpenReader sys (Input e) = Inr files \<Longrightarrow> cbz_images files = [] \<Longrightarrow>
   loadCbz sys e = Inl errNoImagesFound"
  by (simp add: loadCbz_def)

lemma loadCbr_no_images:
  "rardecode_List sys (Input e) = Inr files \<Longrightarrow> cbr_names files = [] \<Longrightarrow>
   loadCbr sys e = Inl errNoImagesFound"
  by (simp add: loadCbr_def)

lemma loadPdf_no_pages:
  "pdfread_Load sys (Input e) = Some pdf \<Longrightarrow> Pages pdf = 0 \<Longrightarrow>
   loadPdf sys e = Inr (0, [], Closed)"
  by (simp add: loadPdf_def)

text \<open>
  Claim C2 fails for PDF: a readable PDF without pages loads with \<open>totalImages = 0\<close>,
  no error and an output that is closed without a task.
\<close>

theorem empty_pdf_loads_without_error:
  "load (pdf_system 0) (processor ''book.pdf'' False) = Inr (0, [], Closed)"
  by code_simp

section \<open>The indices of the entries\<close>

text \<open>
  When the output is closed, the directory loader gives the Ids \<open>0, ..., N-1\<close>, and so
  does the zip loader when the names of the images are distinct.
\<close>

lemma run_jobs_ids:
  assumes "\<And>j t. w j = Inr t \<Longrightarrow> Id_t t = fst j"
    and "run_jobs w js = (ts, Closed)"
  shows "map Id_t ts = map fst js"
  using assms(2)
proof (induction js arbitrary: ts)
  case Nil
  then show ?case by simp
next
  case (Cons j js)
  from Cons.prems obtain t where t: "w j = Inr t"
    by (cases "w j") auto
  obtain us st where r: "run_jobs w js = (us, st)"
    by (cases "run_jobs w js")
  with Cons.prems t have "st = Closed" "ts = t # us" by auto
  with Cons.IH [of us] r assms(1) [OF t] show ?case by simp
qed

lemma pool_ids:
  assumes "\<And>j t. w j = Inr t \<Longrightarrow> Id_t t = fst j"
    and "0 < n" "pool n w (js, Closed) = (ts, Closed)"
  shows "map Id_t ts = map fst js"
proof -
  obtain us st where r: "run_jobs w js = (us, st)"
    by (cases "run_jobs w js")
  with assms(2,3) have "us = ts" "st = Closed"
    by (auto simp: pool_def split: if_splits)
  with r run_jobs_ids [of w js ts] assms(1) show ?thesis by simp
qed

lemma dir_worker_id: "dir_worker sys e input j = Inr t \<Longrightarrow> Id_t t = fst j"
  by (auto simp: dir_worker_def Let_def split: sum.splits prod.splits if_splits)

lemma cbz_worker_id: "cbz_worker sys e j = Inr t \<Longrightarrow> Id_t t = fst j"
  by (auto simp: cbz_worker_def Let_def split: sum.splits prod.splits if_splits)

lemma loadDir_ids:
  assumes "loadDir sys e = Inr (n, ts, Closed)" "0 < WorkersRatio e 50"
    and "\<forall>ns m. mset (sortpath_By sys ns m) = mset ns"
  shows "map Id_t ts = [0..<n]"
proof -
  from assms(1) obtain images where
    n: "n = length images" and
    p: "pool (WorkersRatio e 50) (dir_worker sys e (filepath_Clean sys (Input e)))
          (dir_jobs (sortpath_By sys images (SortPathMode e)), Closed) = (ts, Closed)"
    by (auto simp: loadDir_def Let_def split: sum.splits if_splits)
  from assms(3) have "mset (sortpath_By sys images (SortPathMode e)) = mset images" by blast
  then have l: "length (sortpath_By sys images (SortPathMode e)) = length images"
    by (rule mset_eq_length)
  from pool_ids [OF dir_worker_id assms(2) p] l n show ?thesis
    by (simp add: dir_jobs_def)
qed

lemma index_names_notin: "x \<notin> set names \<Longrightarrow> index_names names i m x = m x"
  by (induction names arbitrary: i m) auto

lemma index_names_nth:
  "distinct names \<Longrightarrow> k < length names \<Longrightarrow> index_names names i m (names ! k) = Some (i + k)"
proof (induction names arbitrary: i m k)
  case Nil
  then show ?case by simp
next
  case (Cons x xs)
  show ?case
  proof (cases k)
    case 0
    with Cons.prems show ?thesis by (simp add: index_names_notin)
  next
    case (Suc k')
    from Cons.prems Suc have "distinct xs" "k' < length xs" by simp_all
    from Cons.IH [OF this, of "Suc i" "m(x \<mapsto> i)"] Suc show ?thesis
      by (simp del: fun_upd_apply)
  qed
qed

lemma map_index_sorted:
  assumes "distinct names"
  shows "map (map_index (indexedNames names)) names = [0..<length names]"
proof (rule nth_equalityI)
  show "length (map (map_index (indexedNames names)) names) = length [0..<length names]"
    by simp
next
  fix k
  assume "k < length (map (map_index (indexedNames names)) names)"
  then have k: "k < length names" by simp
  from index_names_nth [OF assms k, of 0 Map.empty] k
  show "map (map_index (indexedNames names)) names ! k = [0..<length names] ! k"
    by (simp add: indexedNames_def map_index_def)
qed

lemma loadCbz_ids:
  assumes "loadCbz sys e = Inr (n, ts, Closed)" "0 < WorkersRatio e 50"
    and "zip_OpenReader sys (Input e) = Inr files"
    and "distinct (map Name_z (cbz_images files))"
    and "\<forall>ns m. mset (sortpath_By sys ns m) = mset ns"
  shows "mset (map Id_t ts) = mset [0..<n]"
proof -
  let ?names = "map Name_z (cbz_images files)"
  let ?sorted = "sortpath_By sys ?names (SortPathMode e)"
  let ?idx = "indexedNames ?sorted"
  from assms(1,3) have n: "n = length (cbz_images files)"
    and p: "pool (WorkersRatio e 50) (cbz_worker sys e) (cbz_jobs ?idx (cbz_images files), Closed)
          = (ts, Closed)"
    by (auto simp: loadCbz_def Let_def split: if_splits)
  from assms(5) have m: "mset ?sorted = mset ?names" by blast
  with assms(4) have d: "distinct ?sorted" by (metis mset_eq_imp_distinct_iff)
  from m have l: "length ?sorted = n" using n mset_eq_length by fastforce
  from pool_ids [OF cbz_worker_id assms(2) p]
  have "map Id_t ts = map (map_index ?idx) ?names"
    by (simp add: cbz_jobs_def comp_def)
  then have "mset (map Id_t ts) = mset (map (map_index ?idx) ?names)" by (rule arg_cong)
  also have "\<dots> = image_mset (map_index ?idx) (mset ?names)" by (rule mset_map)
  also have "\<dots> = image_mset (map_index ?idx) (mset ?sorted)" by (simp only: m)
  also have "\<dots> = mset (map (map_index ?idx) ?sorted)" by simp
  also have "\<dots> = mset [0..<n]" by (simp only: map_index_sorted [OF d] l)
  finally show ?thesis .
qed

text \<open>
  Claim C1 fails for a zip archive with two members named \<open>a.jpg\<close>: both tasks get Id
  1 and no task gets Id 0, while \<open>totalImages\<close> is 2. The two names being equal, every
  sort leaves the list as it is, so the outcome does not depend on the sort mode.
\<close>

theorem duplicate_names_share_an_id:
  "load duplicate_zip (processor ''c.cbz'' False)
   = Inr (2, [\<lparr>Id_t = 1, Image_t = Some 1, Path_t = [], Name_t = ''a.jpg''\<rparr>,
              \<lparr>Id_t = 1, Image_t = Some 2, Path_t = [], Name_t = ''a.jpg''\<rparr>], Closed)"
  by code_simp

end
